theory Spec2Isabelle
  imports Complex_Main "HOL-Library.Char_ord" "HOL-Library.List_Lexorder"
begin

section \<open>Python exceptions\<close>

text \<open>
  Every exception the modelled code can raise is a value; a function that can raise
  returns \<open>py_error + 'a\<close>, with \<open>Inl\<close> for the exception.
\<close>

datatype py_error =
    AssertionError | ValueError | IndexError | RuntimeError | TypeError
  | ZeroDivisionError | OSError | UnboundLocalError | AttributeError
  | CalledProcessError | FileNotFoundError | KeyError

section \<open>Python built-ins and the command line\<close>

text \<open>
  \<open>str(n)\<close> of an integer is its decimal numeral, with a minus sign when negative;
  \<open>sep.join(parts)\<close> puts the separator between the parts. The record \<open>namespace\<close> is
  the \<open>args\<close> object that \<open>argparse\<close> builds in \<open>mutrans.py\<close>, and \<open>default_args\<close> holds
  the parser's defaults (on a machine without CUDA).
\<close>

definition digit_char :: "nat \<Rightarrow> char" where
  "digit_char d = ''0123456789'' ! d"

fun str_nat :: "nat \<Rightarrow> string" where
  "str_nat n = (if n < 10 then [digit_char n] else str_nat (n div 10) @ [digit_char (n mod 10)])"

declare str_nat.simps [simp del]

definition str_int :: "int \<Rightarrow> string" where
  "str_int i = (if i < 0 then ''-'' @ str_nat (nat (- i)) else str_nat (nat i))"

fun join :: "string \<Rightarrow> string list \<Rightarrow> string" where
  "join sep [] = []"
| "join sep [p] = p"
| "join sep (p # q # rest) = p @ sep @ join sep (q # rest)"

record namespace =
  max_feature_order :: int
  svi :: bool
  mcmc :: bool
  guide_type :: string
  model_type :: string
  num_steps :: int
  learning_rate :: real
  learning_rate_decay :: real
  num_warmup :: int
  num_samples :: int
  max_tree_depth :: int
  cuda :: bool
  seed :: int
  log_every :: int
  debug :: bool
  device :: string

definition default_args :: namespace where
  "default_args =
     \<lparr>max_feature_order = 0, svi = False, mcmc = False, guide_type = ''mvn_dependent'',
      model_type = ''dependent'', num_steps = 10001, learning_rate = 0.01,
      learning_rate_decay = 0.1, num_warmup = 1000, num_samples = 1000, max_tree_depth = 10,
      cuda = False, seed = 20210319, log_every = 50, debug = False, device = ''cpu''\<rparr>"

section \<open>mutrans.py: the \<open>cached\<close> decorator\<close>

text \<open>
  The disk holds, by path, what is found there: an object written by \<open>torch.save\<close>, or
  anything else that exists under the path (a directory, a truncated or foreign file),
  on which \<open>torch.load\<close> raises the given exception. \<open>os.path.exists\<close> is membership in
  the domain. \<open>save_error\<close> tells for each path and object whether \<open>torch.save\<close> raises
  there (a missing parent directory, a path that cannot be written, an object that
  cannot be pickled) and with which exception. The log holds the lines given to
  \<open>logger.info\<close>.
\<close>

datatype 'v content = Stored 'v | Unreadable py_error

record 'v disk =
  files :: "string \<rightharpoonup> 'v content"
  save_error :: "string \<Rightarrow> 'v \<Rightarrow> py_error option"
  log :: "string list"

text \<open>The decorator's argument is either a callable applied to the call's arguments
  or a fixed path (\<open>filename(*args, **kwargs) if callable(filename) else filename\<close>).\<close>

datatype 'a filename_arg = Callable "'a \<Rightarrow> string" | Fixed string

definition path_exists :: "'v disk \<Rightarrow> string \<Rightarrow> bool" where
  "path_exists st f = (files st f \<noteq> None)"

definition logger_info :: "string \<Rightarrow> 'v disk \<Rightarrow> 'v disk" where
  "logger_info msg st = st\<lparr>log := log st @ [msg]\<rparr>"

definition torch_save :: "'v \<Rightarrow> string \<Rightarrow> 'v disk \<Rightarrow> py_error + 'v disk" where
  "torch_save obj f st =
     (case save_error st f obj of
        Some e \<Rightarrow> Inl e
      | None \<Rightarrow> Inr (st\<lparr>files := (files st)(f \<mapsto> Stored obj)\<rparr>))"

definition torch_load :: "string \<Rightarrow> 'v disk \<Rightarrow> py_error + 'v" where
  "torch_load f st =
     (case files st f of
        None \<Rightarrow> Inl FileNotFoundError
      | Some (Unreadable e) \<Rightarrow> Inl e
      | Some (Stored v) \<Rightarrow> Inr v)"

text \<open>
  The wrapped function takes the call's arguments (positional and keyword, as one
  value) and the disk, and either raises or returns its result and the disk it left.
\<close>

definition cached ::
  "'a filename_arg \<Rightarrow> ('a \<Rightarrow> 'v disk \<Rightarrow> py_error + 'v \<times> 'v disk)
     \<Rightarrow> 'a \<Rightarrow> 'v disk \<Rightarrow> py_error + 'v \<times> 'v disk" where
  "cached filename fn args st =
     (let f = (case filename of Callable g \<Rightarrow> g args | Fixed s \<Rightarrow> s) in
      if \<not> path_exists st f then
        (case fn args st of
           Inl e \<Rightarrow> Inl e
         | Inr (result, st1) \<Rightarrow>
             (case torch_save result f (logger_info (''saving '' @ f) st1) of
                Inl e \<Rightarrow> Inl e
              | Inr st3 \<Rightarrow> Inr (result, st3)))
      else
        (let st1 = logger_info (''loading cached '' @ f) st in
         case torch_load f st1 of
           Inl e \<Rightarrow> Inl e
         | Inr result \<Rightarrow> Inr (result, st1)))"

section \<open>mutrans.py: the cache file names\<close>

text \<open>
  \<open>str\<close> on the values of the configuration is a parameter \<open>str_of\<close>. \<open>_safe_str\<close> replaces
  every character outside the class \<open>[A-Za-x0-9-]\<close> by an underscore. The keyword
  arguments are a map from the keyword to a dictionary, given by its items; \<open>sorted\<close> on
  the items of a dictionary orders them by key. A positional argument of \<open>_fit_filename\<close>
  is either a tuple of pairs or another value.
\<close>

definition safe_char :: "char \<Rightarrow> bool" where
  "safe_char c =
     (CHR ''A'' \<le> c \<and> c \<le> CHR ''Z'' \<or> CHR ''a'' \<le> c \<and> c \<le> CHR ''x''
      \<or> CHR ''0'' \<le> c \<and> c \<le> CHR ''9'' \<or> c = CHR ''-'')"

definition safe_str :: "('v \<Rightarrow> string) \<Rightarrow> 'v \<Rightarrow> string" where
  "safe_str str_of v = map (\<lambda>c. if safe_char c then c else CHR ''_'') (str_of v)"

type_synonym 'v kwargs = "string \<rightharpoonup> (string \<times> 'v) list"

definition kwargs_get :: "'v kwargs \<Rightarrow> string \<Rightarrow> (string \<times> 'v) list" where
  "kwargs_get kwargs name = (case kwargs name of None \<Rightarrow> [] | Some d \<Rightarrow> d)"

definition sorted_items :: "(string \<times> 'v) list \<Rightarrow> (string \<times> 'v) list" where
  "sorted_items d = sort_key fst d"

definition load_data_filename :: "('v \<Rightarrow> string) \<Rightarrow> namespace \<Rightarrow> 'v kwargs \<Rightarrow> string" where
  "load_data_filename str_of args kwargs =
     (let parts = [''data'', str_int (max_feature_order args)]
          @ map (\<lambda>(k, v). ''I'' @ k @ ''='' @ safe_str str_of v)
              (sorted_items (kwargs_get kwargs ''include''))
          @ map (\<lambda>(k, v). ''E'' @ k @ ''='' @ safe_str str_of v)
              (sorted_items (kwargs_get kwargs ''exclude''))
      in ''results/mutrans.'' @ join ''.'' parts @ ''.pt'')"

datatype 'v fit_arg = TupleArg "(string \<times> 'v) list" | PlainArg 'v

definition fit_filename :: "('v \<Rightarrow> string) \<Rightarrow> string \<Rightarrow> 'v fit_arg list \<Rightarrow> string" where
  "fit_filename str_of name args =
     (let strs = name #
            map (\<lambda>arg. case arg of
                          TupleArg items \<Rightarrow>
                            join ''-'' (map (\<lambda>(k, v). k @ ''='' @ safe_str str_of v) items)
                        | PlainArg v \<Rightarrow> str_of v)
              (drop 2 args)
      in ''results/mutrans.'' @ join ''.'' strs @ ''.pt'')"

section \<open>pyrophylo/strains.py: \<open>TimeSpaceStrainModel.__init__\<close>\<close>

text \<open>
  A tensor is its shape and its elements in row-major order; it is well formed when the
  number of elements is the product of the shape. \<open>max()\<close> and \<open>min()\<close> raise on a tensor
  with no element. \<open>death_rate\<close> is a Python number: a float or an int. The checks
  follow the source line by line: unpacking \<open>case_data.shape\<close> raises \<open>ValueError\<close> unless
  it has two entries, \<open>size(-1)\<close> raises \<open>IndexError\<close> on a tensor without dimensions,
  \<open>len\<close> raises \<open>TypeError\<close> on one, and every \<open>assert\<close> raises \<open>AssertionError\<close>.
\<close>

record 'a tensor =
  shape :: "nat list"
  elems :: "'a list"

definition wf_tensor :: "'a tensor \<Rightarrow> bool" where
  "wf_tensor t = (length (elems t) = prod_list (shape t))"

definition tensor_max :: "('a::linorder) tensor \<Rightarrow> py_error + 'a" where
  "tensor_max t = (if elems t = [] then Inl RuntimeError else Inr (Max (set (elems t))))"

definition tensor_min :: "('a::linorder) tensor \<Rightarrow> py_error + 'a" where
  "tensor_min t = (if elems t = [] then Inl RuntimeError else Inr (Min (set (elems t))))"

datatype py_scalar = PyFloat real | PyInt int

fun valid_death_rate :: "py_scalar \<Rightarrow> bool" where
  "valid_death_rate (PyFloat r) = (0 < r \<and> r < 1)"
| "valid_death_rate (PyInt i) = False"

record init_args =
  case_data :: "real tensor"
  death_data :: "real tensor"
  transit_data :: "real tensor"
  sample_time :: "int tensor"
  sample_region :: "int tensor"
  sample_strain :: "int tensor"
  sample_matrix :: "real tensor"
  mutation_matrix :: "real tensor"
  death_rate :: py_scalar
  population :: "real tensor option"

record dims =
  dim_T :: nat
  dim_R :: nat
  dim_P :: nat
  dim_N :: nat
  dim_S :: int
  dim_Rc :: int

definition validate_samples :: "init_args \<Rightarrow> nat \<Rightarrow> nat \<Rightarrow> nat \<Rightarrow> py_error + dims" where
  "validate_samples a T R P =
     (case shape (sample_time a) of
        [] \<Rightarrow> Inl TypeError
      | N # rest \<Rightarrow>
          (case tensor_max (sample_time a) of
             Inl e \<Rightarrow> Inl e
           | Inr tmax \<Rightarrow>
               if \<not> tmax \<le> int T then Inl AssertionError
               else if shape (sample_time a) \<noteq> [N] then Inl AssertionError
               else if shape (sample_region a) \<noteq> [N] then Inl AssertionError
               else if shape (sample_strain a) \<noteq> [N] then Inl AssertionError
               else
                 (case tensor_max (sample_strain a) of
                    Inl e \<Rightarrow> Inl e
                  | Inr smax \<Rightarrow>
                      (case tensor_max (sample_region a) of
                         Inl e \<Rightarrow> Inl e
                       | Inr rmax \<Rightarrow>
                           (let S = 1 + smax; Rc = 1 + rmax in
                            if map int (shape (sample_matrix a)) \<noteq> [Rc, int R]
                            then Inl AssertionError
                            else if map int (shape (mutation_matrix a)) \<noteq> [S, S]
                            then Inl AssertionError
                            else Inr \<lparr>dim_T = T, dim_R = R, dim_P = P, dim_N = N,
                                      dim_S = S, dim_Rc = Rc\<rparr>)))))"

definition validate :: "init_args \<Rightarrow> py_error + dims" where
  "validate a =
     (case shape (case_data a) of
        [T, R] \<Rightarrow>
          if shape (death_data a) \<noteq> [T, R] then Inl AssertionError
          else if (case population a of None \<Rightarrow> False | Some p \<Rightarrow> shape p \<noteq> [R])
          then Inl AssertionError
          else if shape (transit_data a) = [] then Inl IndexError
          else
            (let P = last (shape (transit_data a)) in
             if shape (transit_data a) \<noteq> [R, R, P] then Inl AssertionError
             else if \<not> valid_death_rate (death_rate a) then Inl AssertionError
             else
               (case tensor_min (transit_data a) of
                  Inl e \<Rightarrow> Inl e
                | Inr least \<Rightarrow>
                    if \<not> 0 \<le> least then Inl AssertionError
                    else validate_samples a T R P))
      | _ \<Rightarrow> Inl ValueError)"

text \<open>
  The aggregation runs in single precision: \<open>torch.zeros\<close>, \<open>torch.ones\<close> and the sum
  over the last dimension are \<open>float32\<close>. Every value that arises is a non-negative
  integer, so a cell is a natural number and an addition is the exact sum rounded to
  the nearest number with a 24-bit significand, ties to even: exact up to \<open>2^24\<close>, and
  \<open>2^24 + 1\<close> gives \<open>2^24\<close> again, so a cell stops counting there. (The overflow to
  infinity lies above \<open>2^127\<close>, out of reach of a sum of cells.) The sum over the last
  dimension is taken from left to right; every order gives the same result while the
  exact sum is at most \<open>2^24\<close>.
\<close>

fun bit_length :: "nat \<Rightarrow> nat" where
  "bit_length n = (if n = 0 then 0 else Suc (bit_length (n div 2)))"

declare bit_length.simps [simp del]

definition f32_round :: "nat \<Rightarrow> nat" where
  "f32_round n =
     (if n \<le> 16777216 then n
      else
        (let e = bit_length n - 24; q = n div 2 ^ e; r = n mod 2 ^ e; h = 2 ^ (e - 1)
         in if h < r \<or> (r = h \<and> odd q) then (q + 1) * 2 ^ e else q * 2 ^ e))"

definition f32_add :: "nat \<Rightarrow> nat \<Rightarrow> nat" where
  "f32_add x y = f32_round (x + y)"

definition f32_sum :: "nat list \<Rightarrow> nat" where
  "f32_sum xs = foldl f32_add 0 xs"

text \<open>
  The flat index of a sample is computed on integers; \<open>scatter_add_\<close> adds one, in
  \<open>float32\<close>, at each index of the flat view of the zero tensor and raises when an index
  is outside it. \<open>chop k n\<close> is the reshape of a flat list into \<open>k\<close> rows of \<open>n\<close>; the
  boolean-mask indexing keeps the rows whose mask is true, in row-major order.
\<close>

definition sample_index :: "nat \<Rightarrow> int \<Rightarrow> int \<Rightarrow> int \<Rightarrow> int \<Rightarrow> int \<Rightarrow> int" where
  "sample_index T Rc S t c s = (min t (int T - 1) * Rc + c) * S + s"

fun scatter_add_ones :: "nat list \<Rightarrow> int list \<Rightarrow> py_error + nat list" where
  "scatter_add_ones flat [] = Inr flat"
| "scatter_add_ones flat (i # rest) =
     (if 0 \<le> i \<and> i < int (length flat)
      then scatter_add_ones (flat[nat i := f32_add (flat ! nat i) 1]) rest
      else Inl RuntimeError)"

fun chop :: "nat \<Rightarrow> nat \<Rightarrow> 'a list \<Rightarrow> 'a list list" where
  "chop 0 n xs = []"
| "chop (Suc k) n xs = take n xs # chop k n (drop n xs)"

record strain_model =
  num_time_steps :: nat
  num_regions :: nat
  num_coarse_regions :: nat
  num_strains :: nat
  num_transit_covariates :: nat
  strain_mask :: "bool list list"
  strain_data :: "nat list list"
  strain_total :: "nat list"

definition samples :: "init_args \<Rightarrow> (int \<times> int \<times> int) list" where
  "samples a =
     zip (elems (sample_time a)) (zip (elems (sample_region a)) (elems (sample_strain a)))"

definition TimeSpaceStrainModel :: "init_args \<Rightarrow> py_error + strain_model" where
  "TimeSpaceStrainModel a =
     (case validate a of
        Inl e \<Rightarrow> Inl e
      | Inr d \<Rightarrow>
          (let T = dim_T d; Rc = nat (dim_Rc d); S = nat (dim_S d);
               i = map (\<lambda>(t, c, s). sample_index T (dim_Rc d) (dim_S d) t c s) (samples a)
           in case scatter_add_ones (replicate (T * Rc * S) 0) i of
                Inl e \<Rightarrow> Inl e
              | Inr flat \<Rightarrow>
                  (let rows = chop (T * Rc) S flat;
                       totals = map f32_sum rows;
                       mask = map (\<lambda>x. 0 < x) totals
                   in Inr \<lparr>num_time_steps = T, num_regions = dim_R d,
                            num_coarse_regions = Rc, num_strains = S,
                            num_transit_covariates = dim_P d,
                            strain_mask = chop T Rc mask,
                            strain_data = map fst (filter snd (zip rows mask)),
                            strain_total = map fst (filter snd (zip totals mask))\<rparr>)))"

text \<open>The number of samples with \<open>min(sample_time, T - 1) = t\<close>, \<open>sample_region = c\<close> and
  \<open>sample_strain = s\<close>: what the claim about the buckets counts.\<close>

definition bucket_count :: "init_args \<Rightarrow> nat \<Rightarrow> nat \<Rightarrow> nat \<Rightarrow> nat \<Rightarrow> nat" where
  "bucket_count a T t c s =
     length (filter (\<lambda>(t', c', s'). min t' (int T - 1) = int t \<and> c' = int c \<and> s' = int s)
               (samples a))"

text \<open>A small well-formed input: two time steps, one region, three samples.\<close>

definition example_args :: init_args where
  "example_args = \<lparr>case_data = \<lparr>shape = [2, 1], elems = [0, 0]\<rparr>,
     death_data = \<lparr>shape = [2, 1], elems = [0, 0]\<rparr>,
     transit_data = \<lparr>shape = [1, 1, 1], elems = [0]\<rparr>,
     sample_time = \<lparr>shape = [3], elems = [0, 1, 2]\<rparr>,
     sample_region = \<lparr>shape = [3], elems = [1, 0, 1]\<rparr>,
     sample_strain = \<lparr>shape = [3], elems = [0, 0, 1]\<rparr>,
     sample_matrix = \<lparr>shape = [2, 1], elems = [1, 1]\<rparr>,
     mutation_matrix = \<lparr>shape = [2, 2], elems = [1, 0, 0, 1]\<rparr>,
     death_rate = PyFloat 0.5, population = None\<rparr>"

text \<open>One time step, one region, one strain, and \<open>2^24 + 1\<close> samples, all of them in the
  only bucket.\<close>

definition crowded_args :: init_args where
  "crowded_args = \<lparr>case_data = \<lparr>shape = [1, 1], elems = [0]\<rparr>,
     death_data = \<lparr>shape = [1, 1], elems = [0]\<rparr>,
     transit_data = \<lparr>shape = [1, 1, 1], elems = [0]\<rparr>,
     sample_time = \<lparr>shape = [16777217], elems = replicate 16777217 0\<rparr>,
     sample_region = \<lparr>shape = [16777217], elems = replicate 16777217 0\<rparr>,
     sample_strain = \<lparr>shape = [16777217], elems = replicate 16777217 0\<rparr>,
     sample_matrix = \<lparr>shape = [1, 1], elems = [1]\<rparr>,
     mutation_matrix = \<lparr>shape = [1, 1], elems = [1]\<rparr>,
     death_rate = PyFloat 0.5, population = None\<rparr>"

section \<open>pyrocov/fasta.py: \<open>NextcladeDB\<close>\<close>

text \<open>
  \<open>hashlib.sha1\<close> and the external \<open>nextclade\<close> process are parameters: \<open>sha1\<close> maps the
  text to its hex digest, and \<open>nextclade\<close> maps the text of the temporary FASTA file to
  the lines of the TSV file it writes, or to the exception of the failed call. The
  database keeps the set of aligned hashes, the pending set, the task lists (a
  \<open>defaultdict(list)\<close>: a missing key reads as the empty list), the text written to the
  temporary FASTA file since it was opened, and the rows, temporary rows and header
  files (\<open>None\<close> when the file does not exist). A task is the tuple \<open>fn_args\<close>.
\<close>

definition hash_sequence :: "(string \<Rightarrow> string) \<Rightarrow> string \<Rightarrow> string" where
  "hash_sequence sha1 seq = sha1 (filter (\<lambda>c. c \<noteq> CHR 0x0A) seq)"

record 'a nextclade_db =
  already_aligned :: "string set"
  pending :: "string set"
  tasks :: "string \<rightharpoonup> 'a list"
  max_fasta_count :: int
  fasta_file :: string
  rows_file :: "string list option"
  rows_temp_file :: "string list option"
  header_file :: "string option"

definition tasks_of :: "'a nextclade_db \<Rightarrow> string \<Rightarrow> 'a list" where
  "tasks_of db key = (case tasks db key of None \<Rightarrow> [] | Some l \<Rightarrow> l)"

definition append_task :: "string \<Rightarrow> 'a \<Rightarrow> 'a nextclade_db \<Rightarrow> 'a nextclade_db" where
  "append_task key fn_args db = db\<lparr>tasks := (tasks db)(key \<mapsto> tasks_of db key @ [fn_args])\<rparr>"

definition NextcladeDB :: "string list option \<Rightarrow> int \<Rightarrow> 'a nextclade_db" where
  "NextcladeDB rows max_count =
     \<lparr>already_aligned =
        (case rows of
           None \<Rightarrow> {}
         | Some ls \<Rightarrow> set (map (takeWhile (\<lambda>c. c \<noteq> CHR 0x09)) ls)),
      pending = {}, tasks = Map.empty, max_fasta_count = max_count, fasta_file = [],
      rows_file = rows, rows_temp_file = None, header_file = None\<rparr>"

definition flush ::
  "(string \<Rightarrow> py_error + string list) \<Rightarrow> 'a nextclade_db \<Rightarrow> py_error + 'a nextclade_db" where
  "flush nextclade db =
     (if pending db = {} then Inr db
      else
        (case nextclade (fasta_file db) of
           Inl e \<Rightarrow> Inl e
         | Inr tsv \<Rightarrow>
             (let temp0 = (case rows_file db of Some rows \<Rightarrow> Some rows | None \<Rightarrow> rows_temp_file db);
                  temp1 = (case temp0 of None \<Rightarrow> [] | Some ls \<Rightarrow> ls) @ tl tsv;
                  header1 = (case tsv of [] \<Rightarrow> header_file db | h # rest \<Rightarrow> Some h)
              in Inr (db\<lparr>rows_file := Some temp1, rows_temp_file := None,
                         header_file := header1, fasta_file := [],
                         already_aligned := already_aligned db \<union> pending db,
                         pending := {}\<rparr>))))"

definition schedule_alignment ::
  "(string \<Rightarrow> py_error + string list) \<Rightarrow> string \<Rightarrow> string \<Rightarrow> 'a nextclade_db
     \<Rightarrow> py_error + 'a nextclade_db" where
  "schedule_alignment nextclade key sequence db =
     (let db1 = db\<lparr>fasta_file := fasta_file db @ ''>'' @ key @ [CHR 0x0A] @ sequence @ [CHR 0x0A],
                   pending := insert key (pending db)\<rparr>
      in if int (card (pending db1)) \<ge> max_fasta_count db1 then flush nextclade db1
         else Inr db1)"

definition schedule ::
  "(string \<Rightarrow> string) \<Rightarrow> (string \<Rightarrow> py_error + string list) \<Rightarrow> string \<Rightarrow> 'a
     \<Rightarrow> 'a nextclade_db \<Rightarrow> py_error + 'a nextclade_db" where
  "schedule sha1 nextclade sequence fn_args db =
     (let key = hash_sequence sha1 sequence in
      case (if key \<notin> already_aligned db then schedule_alignment nextclade key sequence db
            else Inr db) of
        Inl e \<Rightarrow> Inl e
      | Inr db1 \<Rightarrow> Inr (append_task key fn_args db1))"

definition maybe_schedule ::
  "(string \<Rightarrow> string) \<Rightarrow> string \<Rightarrow> 'a \<Rightarrow> 'a nextclade_db \<Rightarrow> 'a nextclade_db" where
  "maybe_schedule sha1 sequence fn_args db =
     (let key = hash_sequence sha1 sequence in
      if key \<in> already_aligned db then append_task key fn_args db else db)"

section \<open>preprocess_gisaid.py: \<open>update_shards\<close>\<close>

text \<open>
  \<open>args\<close> is the module's global namespace; \<open>i % n\<close> raises on a zero divisor and takes
  the divisor's sign otherwise, as \<open>mod\<close> on \<open>int\<close> does; a list index may be negative.
  The input file is \<open>None\<close> when it does not exist and its lines otherwise. The result is
  the exception raised, if any, and the shard files opened, each with the lines written
  to it. When the input has no line, \<open>i\<close> is unbound at the final log message.
\<close>

definition py_mod :: "int \<Rightarrow> int \<Rightarrow> py_error + int" where
  "py_mod a b = (if b = 0 then Inl ZeroDivisionError else Inr (a mod b))"

definition list_index :: "nat \<Rightarrow> int \<Rightarrow> py_error + nat" where
  "list_index n j =
     (if 0 \<le> j \<and> j < int n then Inr (nat j)
      else if - int n \<le> j \<and> j < 0 then Inr (nat (int n + j))
      else Inl IndexError)"

record shard_args =
  num_shards :: int
  log_every :: int

record shard_state =
  shards :: "string list list"
  dots :: nat

fun write_lines ::
  "shard_args \<Rightarrow> nat \<Rightarrow> string list \<Rightarrow> shard_state \<Rightarrow> py_error option \<times> shard_state" where
  "write_lines a i [] st = (None, st)"
| "write_lines a i (line # rest) st =
     (case py_mod (int i) (num_shards a) of
        Inl e \<Rightarrow> (Some e, st)
      | Inr j \<Rightarrow>
          (case list_index (length (shards st)) j of
             Inl e \<Rightarrow> (Some e, st)
           | Inr n \<Rightarrow>
               (let st1 = st\<lparr>shards := (shards st)[n := shards st ! n @ [line]]\<rparr> in
                case py_mod (int i) (log_every a) of
                  Inl e \<Rightarrow> (Some e, st1)
                | Inr m \<Rightarrow>
                    write_lines a (Suc i) rest
                      (if m = 0 then st1\<lparr>dots := Suc (dots st1)\<rparr> else st1))))"

definition update_shards ::
  "shard_args \<Rightarrow> string list option \<Rightarrow> string list
     \<Rightarrow> py_error option \<times> (string \<times> string list) list" where
  "update_shards a infile shard_names =
     (case infile of
        None \<Rightarrow> (Some OSError, [])
      | Some lines \<Rightarrow>
          (let st0 = \<lparr>shards = map (\<lambda>name. []) shard_names, dots = 0\<rparr> in
           case write_lines a 0 lines st0 of
             (Some e, st) \<Rightarrow> (Some e, zip shard_names (shards st))
           | (None, st) \<Rightarrow>
               (if lines = [] then Some UnboundLocalError else None,
                zip shard_names (shards st))))"

text \<open>The lines of \<open>ls\<close>, numbered from \<open>i\<close>, whose number is \<open>j\<close> modulo \<open>k\<close>: what
  the loop, entered at line number \<open>i\<close>, appends to shard \<open>j\<close>.\<close>

definition from_pos :: "nat \<Rightarrow> nat \<Rightarrow> nat \<Rightarrow> string list \<Rightarrow> string list" where
  "from_pos k j i ls = map snd (filter (\<lambda>(p, l). p mod k = j) (zip [i..<i + length ls] ls))"

section \<open>pyrocov/fasta.py: \<open>ShardedFastaWriter\<close>\<close>

text \<open>
  \<open>pattern.replace("*", s)\<close> replaces every star. The files are a map from path to the records written to the file
  since it was last opened for writing (opening with \<open>"wt"\<close> truncates); one record is
  the text of the five \<open>write\<close> calls of one \<open>ShardedFastaWriter.write\<close>. The field
  \<open>_file\<close> is the path of the open file, or \<open>None\<close>.
\<close>

definition replace_star :: "string \<Rightarrow> string \<Rightarrow> string" where
  "replace_star pattern s = concat (map (\<lambda>c. if c = CHR ''*'' then s else [c]) pattern)"

record writer =
  filepattern :: string
  max_count :: int
  file_count :: nat
  line_count :: nat
  open_file :: "string option"

type_synonym fasta_files = "string \<rightharpoonup> string list"

definition ShardedFastaWriter :: "string \<Rightarrow> int \<Rightarrow> py_error + writer" where
  "ShardedFastaWriter pattern mc =
     (if count_list pattern (CHR ''*'') = 1
      then Inr \<lparr>filepattern = pattern, max_count = mc, file_count = 0, line_count = 0,
                open_file = None\<rparr>
      else Inl AssertionError)"

definition open_next :: "writer \<Rightarrow> fasta_files \<Rightarrow> string \<times> fasta_files" where
  "open_next w fs =
     (let filename = replace_star (filepattern w) (str_nat (file_count w))
      in (filename, fs(filename \<mapsto> [])))"

definition enter :: "writer \<times> fasta_files \<Rightarrow> py_error + writer \<times> fasta_files" where
  "enter s =
     (case s of (w, fs) \<Rightarrow>
        if open_file w \<noteq> None then Inl AssertionError
        else (case open_next w fs of (f, fs1) \<Rightarrow>
                Inr (w\<lparr>open_file := Some f, file_count := file_count w + 1\<rparr>, fs1)))"

definition exit_writer :: "writer \<times> fasta_files \<Rightarrow> py_error + writer \<times> fasta_files" where
  "exit_writer s =
     (case s of (w, fs) \<Rightarrow>
        (case open_file w of
           None \<Rightarrow> Inl AttributeError
         | Some f \<Rightarrow> Inr (w\<lparr>open_file := None, file_count := 0, line_count := 0\<rparr>, fs)))"

definition fasta_record :: "string \<Rightarrow> string \<Rightarrow> string" where
  "fasta_record name sequence = ''>'' @ name @ [CHR 0x0A] @ sequence @ [CHR 0x0A]"

definition records_of :: "fasta_files \<Rightarrow> string \<Rightarrow> string list" where
  "records_of fs f = (case fs f of None \<Rightarrow> [] | Some recs \<Rightarrow> recs)"

definition file_append :: "string option \<Rightarrow> string \<Rightarrow> fasta_files \<Rightarrow> py_error + fasta_files" where
  "file_append h text fs =
     (case h of
        None \<Rightarrow> Inl AttributeError
      | Some f \<Rightarrow> Inr (fs(f \<mapsto> records_of fs f @ [text])))"

definition write_fasta :: "string \<Rightarrow> string \<Rightarrow> writer \<times> fasta_files \<Rightarrow> py_error + writer \<times> fasta_files" where
  "write_fasta name sequence s =
     (case s of (w, fs) \<Rightarrow>
        (case (if int (line_count w) = max_count w
               then (case open_file w of
                       None \<Rightarrow> Inl AttributeError
                     | Some old \<Rightarrow>
                         (case open_next w fs of (f, fs1) \<Rightarrow>
                            Inr (w\<lparr>open_file := Some f, file_count := file_count w + 1,
                                    line_count := 0\<rparr>, fs1)))
               else Inr (w, fs)) of
           Inl e \<Rightarrow> Inl e
         | Inr (w1, fs1) \<Rightarrow>
             (case file_append (open_file w1) (fasta_record name sequence) fs1 of
                Inl e \<Rightarrow> Inl e
              | Inr fs2 \<Rightarrow> Inr (w1\<lparr>line_count := line_count w1 + 1\<rparr>, fs2))))"

fun write_all ::
  "(string \<times> string) list \<Rightarrow> writer \<times> fasta_files \<Rightarrow> py_error + writer \<times> fasta_files" where
  "write_all [] s = Inr s"
| "write_all ((name, sequence) # rest) s =
     (case write_fasta name sequence s of Inl e \<Rightarrow> Inl e | Inr s1 \<Rightarrow> write_all rest s1)"


text \<open>The name \<open>_open\<close> gives file number \<open>i\<close>; a \<open>with\<close> block that writes the records
  \<open>rs\<close>, up to before \<open>__exit__\<close>; and the invariant of an entered writer.\<close>

definition shard_name :: "writer \<Rightarrow> nat \<Rightarrow> string" where
  "shard_name w i = replace_star (filepattern w) (str_nat i)"

definition run_writer ::
  "string \<Rightarrow> int \<Rightarrow> fasta_files \<Rightarrow> (string \<times> string) list
     \<Rightarrow> py_error + writer \<times> fasta_files" where
  "run_writer pattern mc fs rs =
     (case ShardedFastaWriter pattern mc of
        Inl e \<Rightarrow> Inl e
      | Inr w \<Rightarrow> (case enter (w, fs) of Inl e \<Rightarrow> Inl e | Inr s \<Rightarrow> write_all rs s))"

definition writer_inv :: "string \<Rightarrow> int \<Rightarrow> writer \<times> fasta_files \<Rightarrow> bool" where
  "writer_inv pattern mc s =
     (case s of (w, fs) \<Rightarrow>
        filepattern w = pattern \<and> max_count w = mc
      \<and> 0 < file_count w
      \<and> open_file w = Some (shard_name w (file_count w - 1))
      \<and> length (records_of fs (shard_name w (file_count w - 1))) = line_count w
      \<and> int (line_count w) \<le> mc
      \<and> (\<forall>i<file_count w. int (length (records_of fs (shard_name w i))) \<le> mc))"

section \<open>mutrans.py: \<open>main\<close>\<close>

text \<open>
  \<open>main\<close> is modelled by the calls it makes, in order, and by what it saves. A holdout
  dictionary, the tuple \<open>main\<close> makes of it and the keyword arguments it is turned back
  into are all given by their items; a configuration tuple is its leading entries and
  its last entry, the holdout. The cached functions \<open>load_data\<close>, \<open>fit_mcmc\<close> and
  \<open>fit_svi\<close> are the environment: each returns a value or raises, and \<open>main\<close> stops at
  the first exception. A stored result is the fit's result with the dataset whose
  \<open>mutations\<close> entry is copied into it.
\<close>

type_synonym holdout = "(string \<times> (string \<times> string) list) list"

datatype pyval = PStr string | PInt int | PFloat real | PHoldout holdout

type_synonym config = "pyval list \<times> holdout"

datatype 'd call =
    SetDefaultDtype
  | SetDefaultTensorType
  | SetDetectAnomaly
  | LogConfig config
  | LoadData namespace holdout
  | FitMcmc namespace 'd "pyval list"
  | FitSvi namespace 'd "pyval list"
  | LogSaving

record ('d, 'r) env =
  load_data :: "namespace \<Rightarrow> holdout \<Rightarrow> py_error + 'd"
  fit_mcmc :: "namespace \<Rightarrow> 'd \<Rightarrow> pyval list \<Rightarrow> py_error + 'r"
  fit_svi :: "namespace \<Rightarrow> 'd \<Rightarrow> pyval list \<Rightarrow> py_error + 'r"

type_synonym ('d, 'r) results = "(config \<times> 'r \<times> 'd) list"

fun dict_set :: "('k \<times> 'v) list \<Rightarrow> 'k \<Rightarrow> 'v \<Rightarrow> ('k \<times> 'v) list" where
  "dict_set [] k v = [(k, v)]"
| "dict_set ((k', v') # rest) k v =
     (if k' = k then (k', v) # rest else (k', v') # dict_set rest k v)"

definition svi_config :: "namespace \<Rightarrow> pyval list" where
  "svi_config args =
     [PStr (guide_type args), PInt (num_steps args), PFloat (learning_rate args),
      PFloat (learning_rate_decay args)]"

definition mcmc_config :: "namespace \<Rightarrow> string \<Rightarrow> pyval list" where
  "mcmc_config args model =
     [PStr ''mcmc'', PStr model, PInt (num_steps args), PInt (num_warmup args),
      PInt (num_samples args), PInt (max_tree_depth args)]"

definition inference_configs :: "namespace \<Rightarrow> pyval list list" where
  "inference_configs args =
     [svi_config args,
      mcmc_config args ''naive'',
      mcmc_config args ''dependent'',
      mcmc_config args ''conditioned'',
      mcmc_config args ''preconditioned'',
      [PStr ''map'', PInt 1001, PFloat 0.05, PFloat 1.0],
      [PStr ''normal_delta'', PInt 2001, PFloat 0.05, PFloat 0.1],
      [PStr ''normal'', PInt 2001, PFloat 0.05, PFloat 0.1],
      [PStr ''mvn_delta'', PInt 10001, PFloat 0.01, PFloat 0.1],
      [PStr ''mvn_normal'', PInt 10001, PFloat 0.01, PFloat 0.1],
      [PStr ''mvn_delta_dependent'', PInt 10001, PFloat 0.01, PFloat 0.1],
      [PStr ''mvn_normal_dependent'', PInt 10001, PFloat 0.01, PFloat 0.1]]"

definition holdouts :: "holdout list" where
  "holdouts =
     [[(''exclude'', [(''location'', ''^Europe / United Kingdom'')])],
      [(''exclude'', [(''location'', ''^North America / USA'')])],
      [(''include'', [(''location'', ''^Europe / United Kingdom'')])],
      [(''include'', [(''location'', ''^North America / USA'')])],
      [(''include'', [(''virus_name'', ''^hCoV-19/USA/..-CDC-'')])],
      [(''include'', [(''virus_name'', ''^hCoV-19/USA/..-CDC-2-'')])]]"

definition holdout_tuple :: "holdout \<Rightarrow> holdout" where
  "holdout_tuple h = map (\<lambda>(k, v). (k, sorted_items v)) (sorted_items h)"

definition configs :: "namespace \<Rightarrow> config list" where
  "configs args =
     map (\<lambda>c. (c, [])) (inference_configs args)
     @ map (\<lambda>h. (svi_config args, holdout_tuple h)) holdouts"

fun fit_all ::
  "('d, 'r) env \<Rightarrow> namespace \<Rightarrow> config list \<Rightarrow> ('d, 'r) results \<Rightarrow> 'd call list
     \<Rightarrow> 'd call list \<times> (py_error + ('d, 'r) results)" where
  "fit_all E args [] result trace = (trace, Inr result)"
| "fit_all E args (config # rest) result trace =
     (let trace1 = trace @ [LogConfig config, LoadData args (snd config)] in
      case load_data E args (snd config) of
        Inl e \<Rightarrow> (trace1, Inl e)
      | Inr dataset \<Rightarrow>
          if hd (fst config) = PStr ''mcmc''
          then
            (let pos = tl (fst config) @ [PHoldout (snd config)];
                 trace2 = trace1 @ [FitMcmc args dataset pos]
             in case fit_mcmc E args dataset pos of
                  Inl e \<Rightarrow> (trace2, Inl e)
                | Inr r \<Rightarrow> fit_all E args rest (dict_set result config (r, dataset)) trace2)
          else
            (let pos = fst config @ [PHoldout (snd config)];
                 trace2 = trace1 @ [FitSvi args dataset pos]
             in case fit_svi E args dataset pos of
                  Inl e \<Rightarrow> (trace2, Inl e)
                | Inr r \<Rightarrow> fit_all E args rest (dict_set result config (r, dataset)) trace2))"

definition main ::
  "('d, 'r) env \<Rightarrow> namespace
     \<Rightarrow> 'd call list \<times> (py_error + (string \<times> ('d, 'r) results) option)" where
  "main E args =
     (let trace0 = [SetDefaultDtype]
            @ (if cuda args then [SetDefaultTensorType] else [])
            @ (if debug args then [SetDetectAnomaly] else [])
      in
      if mcmc args then
        (let trace1 = trace0 @ [LoadData args []] in
         case load_data E args [] of
           Inl e \<Rightarrow> (trace1, Inl e)
         | Inr dataset \<Rightarrow>
             (let pos = [PStr (model_type args), PInt (num_steps args), PInt (num_warmup args),
                         PInt (num_samples args), PInt (max_tree_depth args)];
                  trace2 = trace1 @ [FitMcmc args dataset pos]
              in case fit_mcmc E args dataset pos of
                   Inl e \<Rightarrow> (trace2, Inl e)
                 | Inr r \<Rightarrow> (trace2, Inr None)))
      else if svi args then
        (let trace1 = trace0 @ [LoadData args []] in
         case load_data E args [] of
           Inl e \<Rightarrow> (trace1, Inl e)
         | Inr dataset \<Rightarrow>
             (let trace2 = trace1 @ [FitSvi args dataset (svi_config args)]
              in case fit_svi E args dataset (svi_config args) of
                   Inl e \<Rightarrow> (trace2, Inl e)
                 | Inr r \<Rightarrow> (trace2, Inr None)))
      else
        (case fit_all E args (configs args) [] trace0 of
           (trace1, Inl e) \<Rightarrow> (trace1, Inl e)
         | (trace1, Inr result) \<Rightarrow>
             (trace1 @ [LogSaving], Inr (Some (''results/mutrans.pt'', result)))))"

text \<open>An environment whose functions do not raise.\<close>

definition total_env ::
  "(namespace \<Rightarrow> holdout \<Rightarrow> 'd) \<Rightarrow> (namespace \<Rightarrow> 'd \<Rightarrow> pyval list \<Rightarrow> 'r)
     \<Rightarrow> (namespace \<Rightarrow> 'd \<Rightarrow> pyval list \<Rightarrow> 'r) \<Rightarrow> ('d, 'r) env" where
  "total_env ld fm fs =
     \<lparr>load_data = (\<lambda>a k. Inr (ld a k)), fit_mcmc = (\<lambda>a d p. Inr (fm a d p)),
      fit_svi = (\<lambda>a d p. Inr (fs a d p))\<rparr>"

section \<open>pyrophylo/strains.py: the observation distributions\<close>

text \<open>
  A rate is a tensor; one element of it is a real number. The overdispersion is either a
  Python number or a tensor (\<open>isinstance(overdispersion, (int, float))\<close> tells them
  apart). In exact real arithmetic a reciprocal or quotient by zero, a logarithm of a
  non-positive number and a square root of a negative number have no value: \<open>None\<close>.
\<close>

datatype overdispersion = PyNumber real | TensorValue real

fun value_of :: "overdispersion \<Rightarrow> real" where
  "value_of (PyNumber x) = x"
| "value_of (TensorValue x) = x"

datatype distribution =
    Poisson real
  | NegativeBinomial real real
  | LogNormal real real

definition reciprocal :: "real \<Rightarrow> real option" where
  "reciprocal x = (if x = 0 then None else Some (1 / x))"

definition divide_by :: "real \<Rightarrow> real \<Rightarrow> real option" where
  "divide_by x y = (if y = 0 then None else Some (x / y))"

definition log_of :: "real \<Rightarrow> real option" where
  "log_of x = (if x \<le> 0 then None else Some (ln x))"

definition log1p :: "real \<Rightarrow> real option" where
  "log1p x = log_of (1 + x)"

definition sqrt_of :: "real \<Rightarrow> real option" where
  "sqrt_of x = (if x < 0 then None else Some (sqrt x))"

fun is_py_number :: "overdispersion \<Rightarrow> bool" where
  "is_py_number (PyNumber x) = True"
| "is_py_number (TensorValue x) = False"

definition OverdispersedPoisson :: "real \<Rightarrow> overdispersion \<Rightarrow> distribution option" where
  "OverdispersedPoisson rate od =
     (if is_py_number od \<and> value_of od = 0 then Some (Poisson rate)
      else
        (case reciprocal (1 + value_of od * rate) of
           None \<Rightarrow> None
         | Some q \<Rightarrow>
             (let p = 1 - q in
              case divide_by (rate * q) p of
                None \<Rightarrow> None
              | Some r \<Rightarrow> Some (NegativeBinomial r p))))"

definition RelaxedPoisson :: "real \<Rightarrow> overdispersion \<Rightarrow> distribution option" where
  "RelaxedPoisson rate od =
     (case reciprocal rate of
        None \<Rightarrow> None
      | Some rinv \<Rightarrow>
          (case log1p (rinv + value_of od) of
             None \<Rightarrow> None
           | Some s2 \<Rightarrow>
               (case log_of rate of
                  None \<Rightarrow> None
                | Some lr \<Rightarrow>
                    (let m = lr - s2 / 2 in
                     case sqrt_of s2 of
                       None \<Rightarrow> None
                     | Some s \<Rightarrow> Some (LogNormal m s)))))"

text \<open>
  Modelled from the spec: the moments of the distribution library's
  \<open>NegativeBinomial(r, p)\<close>, \<open>Poisson(rate)\<close> and \<open>LogNormal(m, s)\<close>; the library is not
  part of the sources, and the formulas are the ones the comments of
  \<open>OverdispersedPoisson\<close> and \<open>RelaxedPoisson\<close> state.
\<close>

fun mean :: "distribution \<Rightarrow> real" where
  "mean (Poisson rate) = rate"
| "mean (NegativeBinomial r p) = r * p / (1 - p)"
| "mean (LogNormal m s) = exp (m + s\<^sup>2 / 2)"

fun variance :: "distribution \<Rightarrow> real" where
  "variance (Poisson rate) = rate"
| "variance (NegativeBinomial r p) = r * p / (1 - p)\<^sup>2"
| "variance (LogNormal m s) = (exp (s\<^sup>2) - 1) * exp (2 * m + s\<^sup>2)"

section \<open>Theorems\<close>

subsection \<open>Decimal numerals\<close>

lemma digit_char_inj:
  assumes "a < 10" "b < 10" "digit_char a = digit_char b"
  shows "a = b"
proof -
  have d: "distinct ''0123456789''" by simp
  have "a < length ''0123456789''" "b < length ''0123456789''" using assms by simp_all
  then show ?thesis
    using assms(3) d unfolding digit_char_def by (simp only: nth_eq_iff_index_eq)
qed

lemma str_nat_small: "n < 10 \<Longrightarrow> str_nat n = [digit_char n]"
  by (simp add: str_nat.simps)

lemma str_nat_large:
  "\<not> n < 10 \<Longrightarrow> str_nat n = str_nat (n div 10) @ [digit_char (n mod 10)]"
  by (subst str_nat.simps) simp

lemma str_nat_nonempty: "str_nat n \<noteq> []"
  by (cases "n < 10") (simp_all add: str_nat_small str_nat_large)

lemma str_nat_inj: "str_nat a = str_nat b \<Longrightarrow> a = b"
proof (induction a arbitrary: b rule: str_nat.induct)
  case (1 a)
  show ?case
  proof (cases "a < 10")
    case True
    show ?thesis
    proof (cases "b < 10")
      case b: True
      then show ?thesis using True "1.prems" digit_char_inj by (simp add: str_nat_small)
    next
      case b: False
      then show ?thesis
        using True "1.prems" str_nat_nonempty [of "b div 10"]
        by (simp add: str_nat_small str_nat_large)
    qed
  next
    case False
    show ?thesis
    proof (cases "b < 10")
      case b: True
      then show ?thesis
        using False "1.prems" str_nat_nonempty [of "a div 10"]
        by (simp add: str_nat_small str_nat_large)
    next
      case b: False
      then have eq: "str_nat (a div 10) = str_nat (b div 10)"
        and dg: "digit_char (a mod 10) = digit_char (b mod 10)"
        using False "1.prems" by (simp_all add: str_nat_large)
      have "a div 10 = b div 10" using "1.IH" [OF False eq] .
      moreover have "a mod 10 = b mod 10" using digit_char_inj [OF _ _ dg] by simp
      ultimately show ?thesis by (metis div_mult_mod_eq)
    qed
  qed
qed

lemma str_nat_digits: "set (str_nat n) \<subseteq> set ''0123456789''"
proof (induction n rule: str_nat.induct)
  case (1 n)
  have d: "digit_char k \<in> set ''0123456789''" if "k < 10" for k
    unfolding digit_char_def using that by (intro nth_mem) simp
  show ?case
  proof (cases "n < 10")
    case True
    then have "str_nat n = [digit_char n]" by (rule str_nat_small)
    then show ?thesis using d [OF True] by simp
  next
    case False
    have "n mod 10 < 10" by simp
    then have "digit_char (n mod 10) \<in> set ''0123456789''" by (rule d)
    moreover have "str_nat n = str_nat (n div 10) @ [digit_char (n mod 10)]"
      using False by (rule str_nat_large)
    ultimately show ?thesis using "1.IH" [OF False] by simp
  qed
qed

lemma str_nat_no_char: "c \<notin> set ''0123456789'' \<Longrightarrow> c \<notin> set (str_nat n)"
  using str_nat_digits [of n] by blast

lemma str_nat_no_dash: "CHR ''-'' \<notin> set (str_nat n)"
  by (rule str_nat_no_char) simp

lemma str_int_no_dot: "CHR ''.'' \<notin> set (str_int i)"
proof -
  have d: "CHR ''.'' \<notin> set (str_nat n)" for n
    by (rule str_nat_no_char) simp
  show ?thesis
  proof (cases "i < 0")
    case True
    then have "str_int i = CHR ''-'' # str_nat (nat (- i))" by (simp add: str_int_def)
    then show ?thesis using d [of "nat (- i)"] by simp
  next
    case False
    then have "str_int i = str_nat (nat i)" by (simp add: str_int_def)
    then show ?thesis using d [of "nat i"] by simp
  qed
qed

lemma str_int_inj: "str_int i = str_int j \<Longrightarrow> i = j"
proof -
  assume eq: "str_int i = str_int j"
  note nodash = str_nat_no_dash
  have ne: "''-'' @ str_nat a \<noteq> str_nat b" for a b
  proof
    assume "''-'' @ str_nat a = str_nat b"
    then have "CHR ''-'' \<in> set (str_nat b)" by (metis append_Cons list.set_intros(1))
    then show False using nodash by blast
  qed
  show "i = j"
  proof (cases "i < 0")
    case i: True
    show ?thesis
    proof (cases "j < 0")
      case True
      then have "str_nat (nat (- i)) = str_nat (nat (- j))" using eq i by (simp add: str_int_def)
      then have "nat (- i) = nat (- j)" by (rule str_nat_inj)
      then show ?thesis using i True by simp
    next
      case False
      then show ?thesis using eq i ne [of "nat (- i)" "nat j"] by (simp add: str_int_def)
    qed
  next
    case i: False
    show ?thesis
    proof (cases "j < 0")
      case True
      then show ?thesis using eq i ne [of "nat (- j)" "nat i"] by (simp add: str_int_def)
    next
      case False
      then have "str_nat (nat i) = str_nat (nat j)" using eq i by (simp add: str_int_def)
      then have "nat i = nat j" by (rule str_nat_inj)
      then show ?thesis using i False by simp
    qed
  qed
qed

subsection \<open>The \<open>cached\<close> decorator\<close>

lemma cached_miss:
  assumes "files st f = None" and "fn args st = Inr (r, st1)" and "save_error st1 f r = None"
    and "f = (case filename of Callable g \<Rightarrow> g args | Fixed s \<Rightarrow> s)"
  shows "cached filename fn args st =
           Inr (r, st1\<lparr>log := log st1 @ [''saving '' @ f], files := (files st1)(f \<mapsto> Stored r)\<rparr>)"
  using assms
  by (simp add: cached_def path_exists_def logger_info_def torch_save_def Let_def)

lemma cached_save_raise:
  assumes "files st f = None" and "fn args st = Inr (r, st1)" and "save_error st1 f r = Some e"
    and "f = (case filename of Callable g \<Rightarrow> g args | Fixed s \<Rightarrow> s)"
  shows "cached filename fn args st = Inl e"
  using assms
  by (simp add: cached_def path_exists_def logger_info_def torch_save_def Let_def)

lemma cached_raise:
  assumes "files st f = None" and "fn args st = Inl e"
    and "f = (case filename of Callable g \<Rightarrow> g args | Fixed s \<Rightarrow> s)"
  shows "cached filename fn args st = Inl e"
  using assms by (simp add: cached_def path_exists_def Let_def)

lemma cached_hit:
  assumes "files st f = Some (Stored v)"
    and "f = (case filename of Callable g \<Rightarrow> g args | Fixed s \<Rightarrow> s)"
  shows "cached filename fn args st = Inr (v, st\<lparr>log := log st @ [''loading cached '' @ f]\<rparr>)"
  using assms
  by (simp add: cached_def path_exists_def logger_info_def torch_load_def Let_def)

lemma cached_load_raise:
  assumes "files st f = Some (Unreadable e)"
    and "f = (case filename of Callable g \<Rightarrow> g args | Fixed s \<Rightarrow> s)"
  shows "cached filename fn args st = Inl e"
  using assms
  by (simp add: cached_def path_exists_def logger_info_def torch_load_def Let_def)

text \<open>
  The claim as stated fails where \<open>torch.save\<close> or \<open>torch.load\<close> raises. With no cache
  file and a parent directory that does not exist, the wrapped function is invoked and
  returns 6, but \<open>torch.save\<close> raises and the call returns no result; with a file under
  the path that \<open>torch.load\<close> cannot read, the call raises and returns no stored value.
\<close>

theorem C1_save_load_raise_counterexample:
  "path_exists \<lparr>files = Map.empty, save_error = (\<lambda>f v. Some FileNotFoundError), log = []\<rparr>
       ''results/x.pt'' = False
   \<and> cached (Fixed ''results/x.pt'') (\<lambda>n st. Inr (n + 1, st)) (5::nat)
       \<lparr>files = Map.empty, save_error = (\<lambda>f v. Some FileNotFoundError), log = []\<rparr> =
     Inl FileNotFoundError
   \<and> path_exists \<lparr>files = [''results/x.pt'' \<mapsto> Unreadable RuntimeError],
          save_error = (\<lambda>f v. None), log = []\<rparr> ''results/x.pt'' = True
   \<and> cached (Fixed ''results/x.pt'') (\<lambda>n st. Inr (n + 1, st)) (5::nat)
       \<lparr>files = [''results/x.pt'' \<mapsto> Unreadable RuntimeError],
        save_error = (\<lambda>f v. None), log = []\<rparr> =
     Inl RuntimeError"
  by (simp add: cached_def path_exists_def logger_info_def torch_save_def torch_load_def)

text \<open>
  Claim C1, amended. For every wrapped function \<open>fn\<close> and every call: when the cache file
  named by the filename argument does not exist, \<open>fn\<close> is invoked; if it returns and
  \<open>torch.save\<close> succeeds, the result is saved under that name (after whatever \<open>fn\<close> itself
  did to the disk) and returned, while an exception of \<open>fn\<close> or of \<open>torch.save\<close> propagates
  and no result is returned. When the file exists, \<open>fn\<close> is not invoked and the outcome
  does not depend on \<open>fn\<close> or on the arguments other than through the file name: the
  stored value is returned if \<open>torch.load\<close> succeeds and its exception propagates
  otherwise; the content is not validated against the arguments.
\<close>

theorem C1_cached_by_existence:
  fixes fn :: "'a \<Rightarrow> 'v disk \<Rightarrow> py_error + 'v \<times> 'v disk"
  assumes f: "f = (case filename of Callable g \<Rightarrow> g args | Fixed s \<Rightarrow> s)"
  shows "(\<not> path_exists st f \<and> fn args st = Inr (r, st1) \<and> save_error st1 f r = None \<longrightarrow>
            cached filename fn args st =
              Inr (r, st1\<lparr>log := log st1 @ [''saving '' @ f],
                         files := (files st1)(f \<mapsto> Stored r)\<rparr>))
       \<and> (\<not> path_exists st f \<and> fn args st = Inr (r, st1) \<and> save_error st1 f r = Some e \<longrightarrow>
            cached filename fn args st = Inl e)
       \<and> (\<not> path_exists st f \<and> fn args st = Inl e \<longrightarrow> cached filename fn args st = Inl e)
       \<and> (files st f = Some (Stored v) \<longrightarrow>
            path_exists st f \<and>
            (\<forall>fn'. cached filename fn' args st =
               Inr (v, st\<lparr>log := log st @ [''loading cached '' @ f]\<rparr>)))
       \<and> (files st f = Some (Unreadable e) \<longrightarrow>
            path_exists st f \<and> (\<forall>fn'. cached filename fn' args st = Inl e))"
proof (intro conjI impI allI)
  assume "\<not> path_exists st f \<and> fn args st = Inr (r, st1) \<and> save_error st1 f r = None"
  then show "cached filename fn args st =
      Inr (r, st1\<lparr>log := log st1 @ [''saving '' @ f], files := (files st1)(f \<mapsto> Stored r)\<rparr>)"
    using cached_miss [OF _ _ _ f, of st fn r st1] by (simp add: path_exists_def)
next
  assume "\<not> path_exists st f \<and> fn args st = Inr (r, st1) \<and> save_error st1 f r = Some e"
  then show "cached filename fn args st = Inl e"
    using cached_save_raise [OF _ _ _ f, of st fn r st1 e] by (simp add: path_exists_def)
next
  assume "\<not> path_exists st f \<and> fn args st = Inl e"
  then show "cached filename fn args st = Inl e"
    using cached_raise [OF _ _ f, of st fn e] by (simp add: path_exists_def)
next
  assume "files st f = Some (Stored v)"
  then show "path_exists st f" by (simp add: path_exists_def)
next
  fix fn' :: "'a \<Rightarrow> 'v disk \<Rightarrow> py_error + 'v \<times> 'v disk"
  assume "files st f = Some (Stored v)"
  then show "cached filename fn' args st =
      Inr (v, st\<lparr>log := log st @ [''loading cached '' @ f]\<rparr>)"
    using cached_hit [OF _ f, of st v fn'] by simp
next
  assume "files st f = Some (Unreadable e)"
  then show "path_exists st f" by (simp add: path_exists_def)
next
  fix fn' :: "'a \<Rightarrow> 'v disk \<Rightarrow> py_error + 'v \<times> 'v disk"
  assume "files st f = Some (Unreadable e)"
  then show "cached filename fn' args st = Inl e"
    using cached_load_raise [OF _ f, of st e fn'] by simp
qed

theorem C1_cached_by_existence_witness:
  "cached (Callable (\<lambda>n::nat. ''results/x.pt'')) (\<lambda>n st. Inr (n + 1, st)) 5
       \<lparr>files = Map.empty, save_error = (\<lambda>f v. None), log = []\<rparr> =
     Inr (6::nat, \<lparr>files = [''results/x.pt'' \<mapsto> Stored 6], save_error = (\<lambda>f v. None),
                   log = [''saving results/x.pt'']\<rparr>)
   \<and> cached (Callable (\<lambda>n::nat. ''results/x.pt'')) (\<lambda>n st. Inr (n + 1, st)) 7
       \<lparr>files = [''results/x.pt'' \<mapsto> Stored 6], save_error = (\<lambda>f v. None), log = []\<rparr> =
     Inr (6::nat, \<lparr>files = [''results/x.pt'' \<mapsto> Stored 6], save_error = (\<lambda>f v. None),
                   log = [''loading cached results/x.pt'']\<rparr>)
   \<and> cached (Callable (\<lambda>n::nat. ''results/x.pt'')) (\<lambda>n st. Inr (n + 1, st)) 5
       \<lparr>files = Map.empty, save_error = (\<lambda>f v. Some OSError), log = []\<rparr> = Inl OSError
   \<and> cached (Callable (\<lambda>n::nat. ''results/x.pt'')) (\<lambda>n st. Inl ValueError) 5
       \<lparr>files = Map.empty, save_error = (\<lambda>f v. None), log = []\<rparr> =
     (Inl ValueError :: py_error + nat \<times> nat disk)
   \<and> cached (Callable (\<lambda>n::nat. ''results/x.pt'')) (\<lambda>n st. Inr (n + 1, st)) 7
       \<lparr>files = [''results/x.pt'' \<mapsto> Unreadable OSError], save_error = (\<lambda>f v. None), log = []\<rparr> =
     (Inl OSError :: py_error + nat \<times> nat disk)"
proof -
  let ?name = "Callable (\<lambda>n::nat. ''results/x.pt'') :: nat filename_arg"
  let ?fn = "\<lambda>(n::nat) (st::nat disk). (Inr (n + 1, st) :: py_error + nat \<times> nat disk)"
  let ?bad = "\<lambda>(n::nat) (st::nat disk). (Inl ValueError :: py_error + nat \<times> nat disk)"
  let ?empty = "\<lparr>files = Map.empty, save_error = (\<lambda>f v. None), log = []\<rparr> :: nat disk"
  let ?closed = "\<lparr>files = Map.empty, save_error = (\<lambda>f v. Some OSError), log = []\<rparr> :: nat disk"
  let ?full = "\<lparr>files = [''results/x.pt'' \<mapsto> Stored (6::nat)], save_error = (\<lambda>f v. None),
                 log = []\<rparr> :: nat disk"
  let ?junk = "\<lparr>files = [''results/x.pt'' \<mapsto> Unreadable OSError], save_error = (\<lambda>f v. None),
                 log = []\<rparr> :: nat disk"
  have miss: "cached ?name ?fn 5 ?empty =
      Inr (6, \<lparr>files = [''results/x.pt'' \<mapsto> Stored 6], save_error = (\<lambda>f v. None),
                log = [''saving results/x.pt'']\<rparr>)"
    using C1_cached_by_existence
      [where f = "''results/x.pt''" and filename = ?name and args = 5 and st = ?empty
         and fn = ?fn and r = 6 and ?st1.0 = ?empty and e = AssertionError and v = 0]
    by (simp add: path_exists_def)
  have hit: "cached ?name ?fn 7 ?full =
      Inr (6, \<lparr>files = [''results/x.pt'' \<mapsto> Stored 6], save_error = (\<lambda>f v. None),
                log = [''loading cached results/x.pt'']\<rparr>)"
    using C1_cached_by_existence
      [where f = "''results/x.pt''" and filename = ?name and args = 7 and st = ?full
         and fn = ?fn and r = 0 and ?st1.0 = ?full and e = AssertionError and v = 6]
    by (simp add: path_exists_def)
  have save: "cached ?name ?fn 5 ?closed = Inl OSError"
    using C1_cached_by_existence
      [where f = "''results/x.pt''" and filename = ?name and args = 5 and st = ?closed
         and fn = ?fn and r = 6 and ?st1.0 = ?closed and e = OSError and v = 0]
    by (simp add: path_exists_def)
  have raise: "cached ?name ?bad 5 ?empty = Inl ValueError"
    using C1_cached_by_existence
      [where f = "''results/x.pt''" and filename = ?name and args = 5 and st = ?empty
         and fn = ?bad and r = 0 and ?st1.0 = ?empty and e = ValueError and v = 0]
    by (simp add: path_exists_def)
  have load: "cached ?name ?fn 7 ?junk = Inl OSError"
    using C1_cached_by_existence
      [where f = "''results/x.pt''" and filename = ?name and args = 7 and st = ?junk
         and fn = ?fn and r = 0 and ?st1.0 = ?junk and e = OSError and v = 0]
    by (simp add: path_exists_def)
  show ?thesis using miss hit save raise load by simp
qed

subsection \<open>Cache file names\<close>

lemma join_Cons: "join sep (p # rest) = p @ concat (map (\<lambda>q. sep @ q) rest)"
proof (induction rest arbitrary: p)
  case Nil
  show ?case by simp
next
  case (Cons q rest)
  have "join sep (p # q # rest) = p @ sep @ join sep (q # rest)" by simp
  also have "join sep (q # rest) = q @ concat (map (\<lambda>q. sep @ q) rest)" by (rule Cons.IH)
  finally show ?case by simp
qed

lemma before_first_dot:
  assumes "CHR ''.'' \<notin> set xs" "CHR ''.'' \<notin> set ys"
    and "xs @ CHR ''.'' # t = ys @ CHR ''.'' # t'"
  shows "xs = ys"
proof -
  have tw: "takeWhile (\<lambda>c. c \<noteq> CHR ''.'') (zs @ CHR ''.'' # u) = zs"
    if "CHR ''.'' \<notin> set zs" for zs u
  proof -
    have "takeWhile (\<lambda>c. c \<noteq> CHR ''.'') (zs @ CHR ''.'' # u) =
        zs @ takeWhile (\<lambda>c. c \<noteq> CHR ''.'') (CHR ''.'' # u)"
      using that by (intro takeWhile_append2) auto
    then show ?thesis by simp
  qed
  have "takeWhile (\<lambda>c. c \<noteq> CHR ''.'') (xs @ CHR ''.'' # t) = xs"
    using assms(1) by (rule tw)
  moreover have "takeWhile (\<lambda>c. c \<noteq> CHR ''.'') (ys @ CHR ''.'' # t') = ys"
    using assms(2) by (rule tw)
  ultimately show ?thesis using assms(3) by simp
qed

lemma load_data_filename_shape:
  "\<exists>t. load_data_filename str_of args kwargs =
     ''results/mutrans.data.'' @ str_int (max_feature_order args) @ CHR ''.'' # t"
proof -
  define rest where "rest =
    map (\<lambda>(k, v). ''I'' @ k @ ''='' @ safe_str str_of v)
        (sorted_items (kwargs_get kwargs ''include''))
    @ map (\<lambda>(k, v). ''E'' @ k @ ''='' @ safe_str str_of v)
        (sorted_items (kwargs_get kwargs ''exclude''))"
  define m where "m = str_int (max_feature_order args)"
  have f: "load_data_filename str_of args kwargs =
      ''results/mutrans.'' @ join ''.'' (''data'' # m # rest) @ ''.pt''"
    by (simp add: load_data_filename_def Let_def rest_def m_def)
  have j: "join ''.'' (''data'' # m # rest) =
      ''data.'' @ m @ concat (map (\<lambda>q. ''.'' @ q) rest)"
    by (simp add: join_Cons del: join.simps)
  obtain t where t: "concat (map (\<lambda>q. ''.'' @ q) rest) @ ''.pt'' = CHR ''.'' # t"
    by (cases rest) auto
  have dot: "(@) ''.'' = (#) CHR ''.''" by (simp add: fun_eq_iff)
  have "load_data_filename str_of args kwargs = ''results/mutrans.data.'' @ m @ CHR ''.'' # t"
    unfolding f j using t by (simp add: dot)
  then show ?thesis unfolding m_def by blast
qed

lemma load_data_filename_order:
  assumes "load_data_filename str_of args kwargs = load_data_filename str_of args' kwargs'"
  shows "max_feature_order args = max_feature_order args'"
proof -
  obtain t where a: "load_data_filename str_of args kwargs =
      ''results/mutrans.data.'' @ str_int (max_feature_order args) @ CHR ''.'' # t"
    using load_data_filename_shape by blast
  obtain t' where b: "load_data_filename str_of args' kwargs' =
      ''results/mutrans.data.'' @ str_int (max_feature_order args') @ CHR ''.'' # t'"
    using load_data_filename_shape by blast
  have eq: "str_int (max_feature_order args) @ CHR ''.'' # t =
      str_int (max_feature_order args') @ CHR ''.'' # t'"
    using assms unfolding a b by simp
  note nodot = str_int_no_dot
  have "str_int (max_feature_order args) = str_int (max_feature_order args')"
    using nodot nodot eq by (rule before_first_dot)
  then show ?thesis by (rule str_int_inj)
qed





subsection \<open>Validation and aggregation in \<open>TimeSpaceStrainModel.__init__\<close>\<close>

lemma validate_samples_eq:
  assumes st: "shape (sample_time a) \<noteq> []" "elems (sample_time a) \<noteq> []"
    and wf: "wf_tensor (sample_time a)" "wf_tensor (sample_region a)"
      "wf_tensor (sample_strain a)"
  shows "validate_samples a T R P =
     (let N = hd (shape (sample_time a));
          S = 1 + Max (set (elems (sample_strain a)));
          Rc = 1 + Max (set (elems (sample_region a)))
      in if Max (set (elems (sample_time a))) \<le> int T
            \<and> shape (sample_time a) = [N] \<and> shape (sample_region a) = [N]
            \<and> shape (sample_strain a) = [N]
            \<and> map int (shape (sample_matrix a)) = [Rc, int R]
            \<and> map int (shape (mutation_matrix a)) = [S, S]
         then Inr \<lparr>dim_T = T, dim_R = R, dim_P = P, dim_N = N, dim_S = S, dim_Rc = Rc\<rparr>
         else Inl AssertionError)"
proof -
  obtain N rest where sh: "shape (sample_time a) = N # rest"
    using st(1) by (cases "shape (sample_time a)") auto
  have tm: "tensor_max (sample_time a) = Inr (Max (set (elems (sample_time a))))"
    using st(2) by (simp add: tensor_max_def)
  show ?thesis
  proof (cases "shape (sample_time a) = [N] \<and> shape (sample_region a) = [N]
      \<and> shape (sample_strain a) = [N]")
    case True
    then have "length (elems (sample_time a)) = N" "length (elems (sample_region a)) = N"
      "length (elems (sample_strain a)) = N"
      using wf by (simp_all add: wf_tensor_def)
    then have ne: "elems (sample_region a) \<noteq> []" "elems (sample_strain a) \<noteq> []"
      using st(2) by auto
    show ?thesis
      using True ne st(2)
      by (simp add: validate_samples_def tm tensor_max_def Let_def)
  next
    case False
    then show ?thesis
      using sh by (auto simp: validate_samples_def tm Let_def)
  qed
qed

lemma tensor_min_nonneg:
  fixes t :: "real tensor"
  assumes "elems t \<noteq> []"
  shows "tensor_min t = Inr (Min (set (elems t)))"
    and "(0 \<le> Min (set (elems t))) = (\<forall>x\<in>set (elems t). 0 \<le> x)"
  using assms by (simp_all add: tensor_min_def)


lemma valid_death_rate_iff:
  "valid_death_rate d = (\<exists>r. d = PyFloat r \<and> 0 < r \<and> r < 1)"
  by (cases d) auto

lemma population_ok_iff:
  "(case pop of None \<Rightarrow> False | Some p \<Rightarrow> shape p \<noteq> [R]) =
     (\<not> (\<forall>p. pop = Some p \<longrightarrow> shape p = [R]))"
  by (cases pop) auto

text \<open>
  Claim C8, amended. When \<open>case_data\<close> has two dimensions \<open>(T, R)\<close>, \<open>transit_data\<close> has at
  least one dimension and one element, and the sample vectors are well-formed tensors of
  which \<open>sample_time\<close> has a dimension and an element, the constructor's validation
  succeeds exactly when: \<open>death_data\<close> has shape \<open>(T, R)\<close>; \<open>population\<close>, when given, has
  shape \<open>(R,)\<close>; \<open>transit_data\<close> has shape \<open>(R, R, P)\<close> and no negative element;
  \<open>death_rate\<close> is a float strictly between 0 and 1; the three sample tensors are
  vectors of one length \<open>N\<close> and the largest sample time is at most \<open>T\<close>;
  \<open>sample_matrix\<close> has shape \<open>(Rc, R)\<close> and \<open>mutation_matrix\<close> shape \<open>(S, S)\<close>, with \<open>S\<close> and
  \<open>Rc\<close> one plus the largest strain and region. Otherwise it raises \<open>AssertionError\<close>;
  in particular a four-dimensional \<open>transit_data\<close> is rejected. A failed validation is
  the constructor's result: nothing is built.
\<close>

theorem C8_validation:
  assumes cd: "shape (case_data a) = [T, R]"
    and td: "shape (transit_data a) \<noteq> []" "elems (transit_data a) \<noteq> []"
    and st: "shape (sample_time a) \<noteq> []" "elems (sample_time a) \<noteq> []"
    and wf: "wf_tensor (sample_time a)" "wf_tensor (sample_region a)"
      "wf_tensor (sample_strain a)"
  shows "validate a =
     (let P = last (shape (transit_data a));
          N = hd (shape (sample_time a));
          S = 1 + Max (set (elems (sample_strain a)));
          Rc = 1 + Max (set (elems (sample_region a)))
      in if shape (death_data a) = [T, R]
            \<and> (\<forall>p. population a = Some p \<longrightarrow> shape p = [R])
            \<and> shape (transit_data a) = [R, R, P]
            \<and> (\<forall>x\<in>set (elems (transit_data a)). 0 \<le> x)
            \<and> (\<exists>r. death_rate a = PyFloat r \<and> 0 < r \<and> r < 1)
            \<and> Max (set (elems (sample_time a))) \<le> int T
            \<and> shape (sample_time a) = [N] \<and> shape (sample_region a) = [N]
            \<and> shape (sample_strain a) = [N]
            \<and> map int (shape (sample_matrix a)) = [Rc, int R]
            \<and> map int (shape (mutation_matrix a)) = [S, S]
         then Inr \<lparr>dim_T = T, dim_R = R, dim_P = P, dim_N = N, dim_S = S, dim_Rc = Rc\<rparr>
         else Inl AssertionError)
   \<and> (length (shape (transit_data a)) = 4 \<longrightarrow> validate a = Inl AssertionError)
   \<and> (validate a = Inl e \<longrightarrow> TimeSpaceStrainModel a = Inl e)"
proof (intro conjI impI)
  note vs = validate_samples_eq [OF st wf, of T R "last (shape (transit_data a))"]
  note tm = tensor_min_nonneg [OF td(2)]
  show main: "validate a =
     (let P = last (shape (transit_data a));
          N = hd (shape (sample_time a));
          S = 1 + Max (set (elems (sample_strain a)));
          Rc = 1 + Max (set (elems (sample_region a)))
      in if shape (death_data a) = [T, R]
            \<and> (\<forall>p. population a = Some p \<longrightarrow> shape p = [R])
            \<and> shape (transit_data a) = [R, R, P]
            \<and> (\<forall>x\<in>set (elems (transit_data a)). 0 \<le> x)
            \<and> (\<exists>r. death_rate a = PyFloat r \<and> 0 < r \<and> r < 1)
            \<and> Max (set (elems (sample_time a))) \<le> int T
            \<and> shape (sample_time a) = [N] \<and> shape (sample_region a) = [N]
            \<and> shape (sample_strain a) = [N]
            \<and> map int (shape (sample_matrix a)) = [Rc, int R]
            \<and> map int (shape (mutation_matrix a)) = [S, S]
         then Inr \<lparr>dim_T = T, dim_R = R, dim_P = P, dim_N = N, dim_S = S, dim_Rc = Rc\<rparr>
         else Inl AssertionError)"
    unfolding validate_def cd list.case population_ok_iff valid_death_rate_iff
      tm(1) sum.case tm(2) vs Let_def
    using td(1) by (simp only: if_False if_True simp_thms split: if_splits) auto
  assume four: "length (shape (transit_data a)) = 4"
  have "shape (transit_data a) \<noteq> [R, R, last (shape (transit_data a))]"
  proof
    assume "shape (transit_data a) = [R, R, last (shape (transit_data a))]"
    then have "length (shape (transit_data a)) = length [R, R, last (shape (transit_data a))]"
      by (rule arg_cong)
    then show False using four by simp
  qed
  then show "validate a = Inl AssertionError"
    unfolding main by (simp add: Let_def)
next
  assume "validate a = Inl e"
  then show "TimeSpaceStrainModel a = Inl e" by (simp add: TimeSpaceStrainModel_def)
qed


lemma split_index:
  fixes a b n :: int
  assumes "0 \<le> b" "b < n" "0 \<le> b'" "b' < n" "a * n + b = a' * n + b'"
  shows "a = a' \<and> b = b'"
proof -
  have n: "n \<noteq> 0" using assms by auto
  have "(b + a * n) div n = a + b div n" "(b' + a' * n) div n = a' + b' div n"
    using n by (rule div_mult_self1)+
  moreover have "b div n = 0" "b' div n = 0"
    using assms by (simp_all add: div_pos_pos_trivial)
  moreover have "b + a * n = b' + a' * n" using assms(5) by (simp add: add.commute)
  ultimately have "a = a'" by simp
  then show ?thesis using assms(5) by simp
qed

lemma bit_length_bound: "0 < n \<Longrightarrow> 2 ^ (bit_length n - 1) \<le> n"
proof (induction n rule: bit_length.induct)
  case (1 n)
  have bl: "bit_length n = Suc (bit_length (n div 2))"
    using "1.prems" by (subst bit_length.simps) simp
  show ?case
  proof (cases "n div 2 = 0")
    case True
    then have "bit_length (n div 2) = 0" by (simp add: bit_length.simps)
    then show ?thesis using bl "1.prems" by simp
  next
    case False
    then have pos: "0 < n div 2" by simp
    have ih: "2 ^ (bit_length (n div 2) - 1) \<le> n div 2"
      using "1.IH" "1.prems" pos by simp
    have "0 < bit_length (n div 2)"
      using pos by (subst bit_length.simps) simp
    then have "(2::nat) ^ bit_length (n div 2) = 2 * 2 ^ (bit_length (n div 2) - 1)"
      by (cases "bit_length (n div 2)") simp_all
    then have "(2::nat) ^ (bit_length n - 1) = 2 * 2 ^ (bit_length (n div 2) - 1)"
      by (simp add: bl)
    also have "\<dots> \<le> 2 * (n div 2)" using ih by simp
    also have "\<dots> \<le> n" by simp
    finally show ?thesis .
  qed
qed

lemma f32_round_pos: "(0 < f32_round n) = (0 < n)"
proof (cases "n \<le> 16777216")
  case True
  then show ?thesis by (simp add: f32_round_def)
next
  case False
  then have n: "0 < n" by simp
  let ?e = "bit_length n - 24"
  have "(2::nat) ^ ?e \<le> 2 ^ (bit_length n - 1)"
    by (rule power_increasing) simp_all
  also have "\<dots> \<le> n" using n by (rule bit_length_bound)
  finally have "0 < n div 2 ^ ?e" by (simp add: div_greater_zero_iff)
  then have "0 < f32_round n" using False by (simp add: f32_round_def Let_def)
  then show ?thesis using n by simp
qed

lemma f32_add_exact: "x + y \<le> 16777216 \<Longrightarrow> f32_add x y = x + y"
  by (simp add: f32_add_def f32_round_def)

lemma bit_length_saturated: "bit_length 16777217 = 25"
  by (simp add: bit_length.simps)

lemma f32_add_saturated: "f32_add 16777216 (Suc 0) = 16777216"
  by (simp add: f32_add_def f32_round_def bit_length_saturated)

lemma foldl_f32_add_pos: "(0 < foldl f32_add acc xs) = (0 < acc + sum_list xs)"
proof (induction xs arbitrary: acc)
  case Nil
  then show ?case by simp
next
  case (Cons x xs)
  have "(0 < foldl f32_add (f32_add acc x) xs) = (0 < f32_add acc x + sum_list xs)"
    by (rule Cons.IH)
  also have "\<dots> = (0 < acc + x \<or> 0 < sum_list xs)"
    using f32_round_pos [of "acc + x"] by (auto simp: f32_add_def)
  finally show ?case by auto
qed

lemma f32_sum_pos: "(0 < f32_sum xs) = (0 < sum_list xs)"
  using foldl_f32_add_pos [of 0 xs] by (simp add: f32_sum_def)

lemma scatter_add_ones_counts:
  assumes "\<forall>i\<in>set is. 0 \<le> i \<and> i < int (length flat)"
    and "\<forall>j<length flat. flat ! j + count_list is (int j) \<le> 16777216"
  shows "\<exists>flat'. scatter_add_ones flat is = Inr flat' \<and> length flat' = length flat
           \<and> (\<forall>j<length flat. flat' ! j = flat ! j + count_list is (int j))
           \<and> sum_list flat' = sum_list flat + length is"
  using assms
proof (induction "is" arbitrary: flat)
  case Nil
  then show ?case by simp
next
  case (Cons i rest)
  let ?f = "flat[nat i := flat ! nat i + 1]"
  have i: "0 \<le> i" "i < int (length flat)" using Cons.prems(1) by simp_all
  then have ni: "nat i < length flat" "int (nat i) = i" by simp_all
  have "flat ! nat i + count_list (i # rest) (int (nat i)) \<le> 16777216"
    using Cons.prems(2) ni(1) by blast
  then have "flat ! nat i + 1 \<le> 16777216" using ni(2) by simp
  then have add: "f32_add (flat ! nat i) 1 = flat ! nat i + 1" by (rule f32_add_exact)
  have r1: "\<forall>i\<in>set rest. 0 \<le> i \<and> i < int (length ?f)" using Cons.prems(1) by simp
  have r2: "\<forall>j<length ?f. ?f ! j + count_list rest (int j) \<le> 16777216"
  proof (intro allI impI)
    fix j assume "j < length ?f"
    then have j: "j < length flat" by simp
    have b: "flat ! j + count_list (i # rest) (int j) \<le> 16777216"
      using Cons.prems(2) j by blast
    show "?f ! j + count_list rest (int j) \<le> 16777216"
      using b j i by (cases "j = nat i") (auto simp: nth_list_update split: if_splits)
  qed
  from Cons.IH [OF r1 r2] obtain flat' where
    r: "scatter_add_ones ?f rest = Inr flat'" "length flat' = length flat"
      "\<forall>j<length flat. flat' ! j = ?f ! j + count_list rest (int j)"
      "sum_list flat' = sum_list ?f + length rest"
    by auto
  have s: "sum_list ?f = sum_list flat + 1"
    using i by (simp add: sum_list_update)
  have "\<forall>j<length flat. flat' ! j = flat ! j + count_list (i # rest) (int j)"
  proof (intro allI impI)
    fix j assume j: "j < length flat"
    show "flat' ! j = flat ! j + count_list (i # rest) (int j)"
      using r(3) j i by (cases "j = nat i") (auto simp: nth_list_update)
  qed
  then show ?case using r i s add by simp
qed

lemma scatter_add_ones_fails:
  assumes "i \<in> set is" and "\<not> (0 \<le> i \<and> i < int (length flat))"
  shows "scatter_add_ones flat is = Inl RuntimeError"
  using assms
proof (induction "is" arbitrary: flat)
  case Nil
  then show ?case by simp
next
  case (Cons x rest)
  show ?case
  proof (cases "0 \<le> x \<and> x < int (length flat)")
    case True
    then have "x \<noteq> i" using Cons.prems by auto
    then have "i \<in> set rest" using Cons.prems by simp
    moreover have "\<not> (0 \<le> i \<and> i < int (length (flat[nat x := f32_add (flat ! nat x) 1])))"
      using Cons.prems by simp
    ultimately have
      "scatter_add_ones (flat[nat x := f32_add (flat ! nat x) 1]) rest = Inl RuntimeError"
      by (rule Cons.IH)
    then show ?thesis using True by simp
  next
    case False
    show ?thesis by (simp only: scatter_add_ones.simps False if_False)
  qed
qed

lemma scatter_add_ones_crowded:
  assumes "x \<le> 16777216"
  shows "scatter_add_ones [x] (replicate n 0) = Inr [min (x + n) 16777216]"
  using assms
proof (induction n arbitrary: x)
  case 0
  then show ?case by simp
next
  case (Suc n)
  show ?case
  proof (cases "x = 16777216")
    case True
    then show ?thesis using Suc.IH [of x] by (simp add: f32_add_saturated)
  next
    case False
    then have "x + 1 \<le> 16777216" using Suc.prems by simp
    then show ?thesis using Suc.IH [of "x + 1"] by (simp add: f32_add_exact)
  qed
qed

lemma chop_length [simp]: "length (chop k n xs) = k"
  by (induction k arbitrary: xs) simp_all

lemma chop_nth: "r < k \<Longrightarrow> chop k n xs ! r = take n (drop (r * n) xs)"
proof (induction k arbitrary: xs r)
  case 0
  then show ?case by simp
next
  case (Suc k)
  note IH = Suc.IH
  show ?case
  proof (cases r)
    case 0
    then show ?thesis by simp
  next
    case r: (Suc r')
    then have "r' < k" using Suc.prems by simp
    then have a: "chop k n (drop n xs) ! r' = take n (drop (r' * n) (drop n xs))"
      by (rule IH)
    have "r' * n + n = Suc r' * n" by simp
    then have b: "drop (r' * n) (drop n xs) = drop (Suc r' * n) xs"
      by (simp only: drop_drop)
    have "chop (Suc k) n xs ! Suc r' = chop k n (drop n xs) ! r'" by simp
    then show ?thesis unfolding r a b .
  qed
qed

lemma concat_chop: "length xs = k * n \<Longrightarrow> concat (chop k n xs) = xs"
proof (induction k arbitrary: xs)
  case 0
  then show ?case by simp
next
  case (Suc k)
  then have "length (drop n xs) = k * n" by simp
  then show ?case using Suc.IH [of "drop n xs"] by simp
qed

lemma chop_table:
  assumes "length xs = k * n"
  shows "chop k n xs = map (\<lambda>r. map (\<lambda>s. xs ! (r * n + s)) [0..<n]) [0..<k]"
proof (rule nth_equalityI)
  show "length (chop k n xs) = length (map (\<lambda>r. map (\<lambda>s. xs ! (r * n + s)) [0..<n]) [0..<k])"
    by simp
next
  fix r assume "r < length (chop k n xs)"
  then have r: "r < k" by simp
  then have "Suc r * n \<le> k * n" by (simp add: Suc_leI mult_le_mono1 del: mult_Suc)
  then have le: "r * n + n \<le> length xs" using assms by simp
  have "take n (drop (r * n) xs) = map (\<lambda>s. xs ! (r * n + s)) [0..<n]"
    using le by (intro nth_equalityI) simp_all
  then show "chop k n xs ! r = map (\<lambda>r. map (\<lambda>s. xs ! (r * n + s)) [0..<n]) [0..<k] ! r"
    using r by (simp add: chop_nth)
qed

lemma product_snoc: "List.product (xs @ [x]) ys = List.product xs ys @ map (Pair x) ys"
  by (induction xs) simp_all

lemma map_row_major:
  "map f [0..<T * Rc] = map (\<lambda>(t, c). f (t * Rc + c)) (List.product [0..<T] [0..<Rc])"
proof (induction T)
  case 0
  then show ?case by simp
next
  case (Suc T)
  have e: "Suc T * Rc = T * Rc + Rc" by simp
  have u: "[0..<T * Rc + Rc] = [0..<T * Rc] @ [T * Rc..<T * Rc + Rc]"
    by (rule upt_add_eq_append) simp
  have m: "map f [T * Rc..<T * Rc + Rc] = map (\<lambda>c. f (T * Rc + c)) [0..<Rc]"
    by (rule nth_equalityI) simp_all
  have p: "List.product [0..<Suc T] [0..<Rc] =
      List.product [0..<T] [0..<Rc] @ map (Pair T) [0..<Rc]"
    by (simp add: product_snoc)
  show ?case
    unfolding e u p map_append m Suc by (simp add: o_def)
qed



lemma count_list_map:
  "count_list (map f xs) j = length (filter (\<lambda>x. f x = j) xs)"
  by (induction xs) simp_all

lemma sum_list_pos_iff:
  fixes xs :: "nat list"
  shows "(\<exists>x\<in>set xs. 0 < x) = (0 < sum_list xs)"
  by (induction xs) auto

lemma masked_rows_fused:
  "map fst (filter snd (zip rows (map ((<) 0 \<circ> f32_sum) rows))) =
     filter (\<lambda>row. 0 < sum_list row) rows"
  by (induction rows) (auto simp: f32_sum_pos sum_list_pos_iff)

lemma masked_totals_fused:
  "map fst (filter snd (zip (map f32_sum rows) (map ((<) 0 \<circ> f32_sum) rows))) =
     map f32_sum (filter (\<lambda>row. 0 < sum_list row) rows)"
  by (induction rows) (auto simp: f32_sum_pos sum_list_pos_iff)

lemma sum_list_rows:
  fixes rows :: "nat list list"
  shows "sum_list (map sum_list rows) = sum_list (concat rows)"
  by (induction rows) simp_all

lemma sum_positive_rows:
  fixes rows :: "nat list list"
  shows "sum_list (map sum_list (filter (\<lambda>row. 0 < sum_list row) rows)) =
     sum_list (map sum_list rows)"
  by (induction rows) simp_all

lemma row_major_less:
  fixes t c T Rc :: nat
  assumes "t < T" "c < Rc"
  shows "t * Rc + c < T * Rc"
proof -
  have "t * Rc + c < t * Rc + Rc" using assms by simp
  also have "\<dots> = Suc t * Rc" by simp
  also have "\<dots> \<le> T * Rc" using assms(1) by (simp add: Suc_leI mult_le_mono1 del: mult_Suc)
  finally show ?thesis .
qed

lemma sample_index_range:
  fixes T :: nat and Rc S t c s :: int
  assumes "0 < T" "0 \<le> t" "0 \<le> c" "c < Rc" "0 \<le> s" "s < S"
  shows "0 \<le> sample_index T Rc S t c s \<and> sample_index T Rc S t c s < int T * Rc * S"
proof -
  let ?tm = "min t (int T - 1)"
  have tm: "0 \<le> ?tm" "?tm \<le> int T - 1" using assms by simp_all
  have Rc: "0 \<le> Rc" and S: "0 \<le> S" using assms by simp_all
  have "?tm * Rc \<le> (int T - 1) * Rc" using tm(2) Rc by (rule mult_right_mono)
  then have a: "?tm * Rc + c \<le> int T * Rc - 1" using assms by (simp add: algebra_simps)
  have a0: "0 \<le> ?tm * Rc + c" using tm Rc assms by simp
  have "(?tm * Rc + c) * S \<le> (int T * Rc - 1) * S" using a S by (rule mult_right_mono)
  then have "(?tm * Rc + c) * S + s < int T * Rc * S" using assms by (simp add: algebra_simps)
  moreover have "0 \<le> (?tm * Rc + c) * S + s" using a0 S assms by simp
  ultimately show ?thesis by (simp add: sample_index_def)
qed

lemma sample_index_decode:
  fixes T t c s :: nat and Rc S t' c' s' :: int
  assumes "0 \<le> c'" "c' < Rc" "0 \<le> s'" "s' < S" "int c < Rc" "int s < S"
  shows "(sample_index T Rc S t' c' s' = int ((t * nat Rc + c) * nat S + s)) =
         (min t' (int T - 1) = int t \<and> c' = int c \<and> s' = int s)"
proof -
  have Rc: "0 \<le> Rc" and S: "0 \<le> S" using assms by simp_all
  have e: "int ((t * nat Rc + c) * nat S + s) = (int t * Rc + int c) * S + int s"
    using Rc S by simp
  show ?thesis
  proof
    assume "sample_index T Rc S t' c' s' = int ((t * nat Rc + c) * nat S + s)"
    then have eq: "(min t' (int T - 1) * Rc + c') * S + s' = (int t * Rc + int c) * S + int s"
      by (simp only: e sample_index_def)
    have 1: "min t' (int T - 1) * Rc + c' = int t * Rc + int c \<and> s' = int s"
      using split_index [OF assms(3,4) _ assms(6) eq] by simp
    then have 2: "min t' (int T - 1) = int t \<and> c' = int c"
      using split_index [OF assms(1,2) _ assms(5), of "min t' (int T - 1)" "int t"] by simp
    show "min t' (int T - 1) = int t \<and> c' = int c \<and> s' = int s" using 1 2 by simp
  next
    assume "min t' (int T - 1) = int t \<and> c' = int c \<and> s' = int s"
    then show "sample_index T Rc S t' c' s' = int ((t * nat Rc + c) * nat S + s)"
      by (simp only: e sample_index_def)
  qed
qed


lemma validate_samples_InrD:
  assumes "validate_samples a T R P = Inr d"
  shows "elems (sample_time a) \<noteq> []" "elems (sample_region a) \<noteq> []"
    "elems (sample_strain a) \<noteq> []"
    "shape (sample_time a) = [dim_N d]" "shape (sample_region a) = [dim_N d]"
    "shape (sample_strain a) = [dim_N d]"
    "Max (set (elems (sample_time a))) \<le> int (dim_T d)"
    "dim_S d = 1 + Max (set (elems (sample_strain a)))"
    "dim_Rc d = 1 + Max (set (elems (sample_region a)))"
    "0 \<le> dim_S d" "0 \<le> dim_Rc d" "dim_T d = T"
  using assms
  by (auto simp: validate_samples_def tensor_max_def Let_def
      split: list.splits if_splits sum.splits)

lemma validate_InrD:
  assumes "validate a = Inr d"
  shows "\<exists>R P. validate_samples a (dim_T d) R P = Inr d"
proof -
  obtain T R P where v: "validate_samples a T R P = Inr d"
    using assms
    by (auto simp: validate_def Let_def split: list.splits if_splits sum.splits)
  then have "dim_T d = T" by (rule validate_samples_InrD)
  then show ?thesis using v by blast
qed


lemma samples_bounds:
  assumes vs: "validate_samples a T R P = Inr d"
    and nn: "\<forall>x\<in>set (elems (sample_time a)). 0 \<le> x"
      "\<forall>x\<in>set (elems (sample_region a)). 0 \<le> x"
      "\<forall>x\<in>set (elems (sample_strain a)). 0 \<le> x"
    and m: "(t, c, s) \<in> set (samples a)"
  shows "0 \<le> t \<and> 0 \<le> c \<and> c < dim_Rc d \<and> 0 \<le> s \<and> s < dim_S d"
proof -
  note D = validate_samples_InrD [OF vs]
  have t: "t \<in> set (elems (sample_time a))"
    using m unfolding samples_def by (rule set_zip_leftD)
  have cs: "(c, s) \<in> set (zip (elems (sample_region a)) (elems (sample_strain a)))"
    using m unfolding samples_def by (rule set_zip_rightD)
  have c: "c \<in> set (elems (sample_region a))" using cs by (rule set_zip_leftD)
  have s: "s \<in> set (elems (sample_strain a))" using cs by (rule set_zip_rightD)
  have "c \<le> Max (set (elems (sample_region a)))" using c by (intro Max_ge) simp_all
  then have c': "c < dim_Rc d" using D(9) by linarith
  have "s \<le> Max (set (elems (sample_strain a)))" using s by (intro Max_ge) simp_all
  then have s': "s < dim_S d" using D(8) by linarith
  have "0 \<le> t" "0 \<le> c" "0 \<le> s" using nn t c s by blast+
  then show ?thesis using c' s' by blast
qed

lemma samples_length:
  assumes vs: "validate_samples a T R P = Inr d"
    and wf: "wf_tensor (sample_time a)" "wf_tensor (sample_region a)"
      "wf_tensor (sample_strain a)"
  shows "length (samples a) = dim_N d" and "samples a \<noteq> []"
proof -
  note D = validate_samples_InrD [OF vs]
  have l: "length (elems (sample_time a)) = dim_N d"
    "length (elems (sample_region a)) = dim_N d"
    "length (elems (sample_strain a)) = dim_N d"
    using wf D(4,5,6) by (simp_all add: wf_tensor_def)
  show "length (samples a) = dim_N d" using l by (simp add: samples_def)
  have "0 < dim_N d" using l(1) D(1) by (cases "elems (sample_time a)") auto
  then show "samples a \<noteq> []" using \<open>length (samples a) = dim_N d\<close> by auto
qed

lemma row_major_split:
  fixes j T Rc S :: nat
  assumes "j < T * Rc * S"
  obtains t c s where "t < T" "c < Rc" "s < S" "j = (t * Rc + c) * S + s"
proof -
  have S: "0 < S" using assms by (cases S) simp_all
  have r: "j div S < T * Rc" using assms by (rule less_mult_imp_div_less)
  then have Rc: "0 < Rc" by (cases Rc) simp_all
  have t: "j div S div Rc < T" using r by (rule less_mult_imp_div_less)
  have c: "j div S mod Rc < Rc" using Rc by simp
  have s: "j mod S < S" using S by simp
  have "j = (j div S div Rc * Rc + j div S mod Rc) * S + j mod S" by simp
  then show ?thesis using t c s that by blast
qed

lemma aggregate_cells:
  assumes vs: "validate_samples a T R P = Inr d"
    and wf: "wf_tensor (sample_time a)" "wf_tensor (sample_region a)"
      "wf_tensor (sample_strain a)"
    and nn: "\<forall>x\<in>set (elems (sample_time a)). 0 \<le> x"
      "\<forall>x\<in>set (elems (sample_region a)). 0 \<le> x"
      "\<forall>x\<in>set (elems (sample_strain a)). 0 \<le> x"
    and bd: "\<forall>t<T. \<forall>c<nat (dim_Rc d). \<forall>s<nat (dim_S d). bucket_count a T t c s \<le> 16777216"
    and T: "0 < T"
  shows "\<exists>flat.
      scatter_add_ones (replicate (T * nat (dim_Rc d) * nat (dim_S d)) 0)
        (map (\<lambda>(t, c, s). sample_index T (dim_Rc d) (dim_S d) t c s) (samples a)) = Inr flat
    \<and> length flat = T * nat (dim_Rc d) * nat (dim_S d)
    \<and> sum_list flat = dim_N d
    \<and> (\<forall>t<T. \<forall>c<nat (dim_Rc d). \<forall>s<nat (dim_S d).
          flat ! ((t * nat (dim_Rc d) + c) * nat (dim_S d) + s) = bucket_count a T t c s)"
proof -
  note D = validate_samples_InrD [OF vs]
  let ?Rc = "nat (dim_Rc d)" and ?S = "nat (dim_S d)"
  let ?f = "\<lambda>(t, c, s). sample_index T (dim_Rc d) (dim_S d) t c s"
  let ?idx = "map ?f (samples a)"
  let ?zero = "replicate (T * ?Rc * ?S) (0::nat)"
  have size: "int (length ?zero) = int T * dim_Rc d * dim_S d"
    using D(10,11) by simp
  have range: "\<forall>i\<in>set ?idx. 0 \<le> i \<and> i < int (length ?zero)"
  proof
    fix i assume "i \<in> set ?idx"
    then obtain t c s where m: "(t, c, s) \<in> set (samples a)"
      and i: "i = sample_index T (dim_Rc d) (dim_S d) t c s"
      by auto
    have b: "0 \<le> t \<and> 0 \<le> c \<and> c < dim_Rc d \<and> 0 \<le> s \<and> s < dim_S d"
      using samples_bounds [OF vs nn m] .
    show "0 \<le> i \<and> i < int (length ?zero)"
      unfolding size i using sample_index_range [OF T, of t c "dim_Rc d" s "dim_S d"] b
      by blast
  qed
  have cnt: "count_list ?idx (int ((t * ?Rc + c) * ?S + s)) = bucket_count a T t c s"
    if t: "t < T" and c: "c < ?Rc" and s: "s < ?S" for t c s
  proof -
    let ?j = "(t * ?Rc + c) * ?S + s"
    have "count_list ?idx (int ?j) = length (filter (\<lambda>x. ?f x = int ?j) (samples a))"
      by (rule count_list_map)
    also have "filter (\<lambda>x. ?f x = int ?j) (samples a) =
        filter (\<lambda>(t', c', s'). min t' (int T - 1) = int t \<and> c' = int c \<and> s' = int s)
          (samples a)"
    proof (rule filter_cong [OF refl])
      fix x assume x: "x \<in> set (samples a)"
      obtain t' c' s' where p: "x = (t', c', s')" by (cases x)
      have b: "0 \<le> t' \<and> 0 \<le> c' \<and> c' < dim_Rc d \<and> 0 \<le> s' \<and> s' < dim_S d"
        using samples_bounds [OF vs nn] x p by blast
      have "int c < dim_Rc d" "int s < dim_S d" using c s by simp_all
      then show "(?f x = int ?j) =
          (case x of (t', c', s') \<Rightarrow> min t' (int T - 1) = int t \<and> c' = int c \<and> s' = int s)"
        unfolding p using sample_index_decode [of c' "dim_Rc d" s' "dim_S d" c s T t' t] b
        by simp
    qed
    finally show ?thesis by (simp add: bucket_count_def)
  qed
  have room: "\<forall>j<length ?zero. ?zero ! j + count_list ?idx (int j) \<le> 16777216"
  proof (intro allI impI)
    fix j assume "j < length ?zero"
    then have j: "j < T * ?Rc * ?S" by simp
    then obtain t c s where tcs: "t < T" "c < ?Rc" "s < ?S" "j = (t * ?Rc + c) * ?S + s"
      by (rule row_major_split)
    have "count_list ?idx (int j) = bucket_count a T t c s"
      unfolding tcs(4) using tcs(1-3) by (rule cnt)
    also have "\<dots> \<le> 16777216" using bd tcs(1-3) by blast
    finally show "?zero ! j + count_list ?idx (int j) \<le> 16777216" using j by simp
  qed
  from scatter_add_ones_counts [OF range room] obtain flat where
    fl: "scatter_add_ones ?zero ?idx = Inr flat" "length flat = length ?zero"
      "\<forall>j<length ?zero. flat ! j = ?zero ! j + count_list ?idx (int j)"
      "sum_list flat = sum_list ?zero + length ?idx"
    by blast
  have len: "length flat = T * ?Rc * ?S" using fl(2) by simp
  have total: "sum_list flat = dim_N d"
    using fl(4) samples_length(1) [OF vs wf] by simp
  have "\<forall>t<T. \<forall>c<?Rc. \<forall>s<?S. flat ! ((t * ?Rc + c) * ?S + s) = bucket_count a T t c s"
  proof (intro allI impI)
    fix t c s assume t: "t < T" and c: "c < ?Rc" and s: "s < ?S"
    let ?j = "(t * ?Rc + c) * ?S + s"
    have "t * ?Rc + c < T * ?Rc" using t c by (rule row_major_less)
    then have j: "?j < T * ?Rc * ?S" using s by (rule row_major_less)
    then have "flat ! ?j = count_list ?idx (int ?j)" using fl(3) by simp
    also have "\<dots> = bucket_count a T t c s" using t c s by (rule cnt)
    finally show "flat ! ?j = bucket_count a T t c s" .
  qed
  then show ?thesis using fl(1) len total by blast
qed


text \<open>
  Claim C3, amended. For an input that passes validation, with well-formed sample
  vectors whose entries are all non-negative and no bucket \<open>(t, c, s)\<close> holding more than
  \<open>2^24 = 16777216\<close> samples (the counts are accumulated in \<open>float32\<close>): with no time
  step the constructor raises; otherwise it succeeds, \<open>strain_mask[t][c]\<close> tells whether
  bucket row \<open>(t, c)\<close> has a positive total, \<open>strain_data\<close> holds exactly the rows \<open>(t, c)\<close>
  with a positive total, in row-major order, each entry \<open>s\<close> being the number of samples
  with \<open>min(sample_time, T - 1) = t\<close>, \<open>sample_region = c\<close> and \<open>sample_strain = s\<close>, and the
  grand total of \<open>strain_data\<close> is \<open>N\<close>.
\<close>

theorem C3_multinomial_counts:
  assumes v: "validate a = Inr d"
    and wf: "wf_tensor (sample_time a)" "wf_tensor (sample_region a)"
      "wf_tensor (sample_strain a)"
    and nn: "\<forall>x\<in>set (elems (sample_time a)). 0 \<le> x"
      "\<forall>x\<in>set (elems (sample_region a)). 0 \<le> x"
      "\<forall>x\<in>set (elems (sample_strain a)). 0 \<le> x"
    and bd: "\<forall>t<dim_T d. \<forall>c<nat (dim_Rc d). \<forall>s<nat (dim_S d).
      bucket_count a (dim_T d) t c s \<le> 16777216"
  shows "(dim_T d = 0 \<longrightarrow> TimeSpaceStrainModel a = Inl RuntimeError)
    \<and> (0 < dim_T d \<longrightarrow>
         (\<exists>m. TimeSpaceStrainModel a = Inr m
            \<and> strain_mask m =
                map (\<lambda>t. map (\<lambda>c. 0 < sum_list (map (bucket_count a (dim_T d) t c)
                                                   [0..<nat (dim_S d)]))
                            [0..<nat (dim_Rc d)])
                  [0..<dim_T d]
            \<and> strain_data m =
                map (\<lambda>(t, c). map (bucket_count a (dim_T d) t c) [0..<nat (dim_S d)])
                  (filter (\<lambda>(t, c). 0 < sum_list (map (bucket_count a (dim_T d) t c)
                                                      [0..<nat (dim_S d)]))
                     (List.product [0..<dim_T d] [0..<nat (dim_Rc d)]))
            \<and> sum_list (map sum_list (strain_data m)) = dim_N d))"
proof (intro conjI impI)
  obtain R P where vs: "validate_samples a (dim_T d) R P = Inr d"
    using validate_InrD [OF v] by blast
  let ?T = "dim_T d" and ?Rc = "nat (dim_Rc d)" and ?S = "nat (dim_S d)"
  let ?idx = "map (\<lambda>(t, c, s). sample_index ?T (dim_Rc d) (dim_S d) t c s) (samples a)"
  {
    assume T0: "dim_T d = 0"
    obtain x rest where "samples a = x # rest"
      using samples_length(2) [OF vs wf] by (cases "samples a") auto
    then have "scatter_add_ones (replicate (?T * ?Rc * ?S) 0) ?idx = Inl RuntimeError"
      by (intro scatter_add_ones_fails [of "hd ?idx"]) (simp_all add: T0)
    then show "TimeSpaceStrainModel a = Inl RuntimeError"
      by (simp add: TimeSpaceStrainModel_def v Let_def)
  }
  {
    assume T: "0 < dim_T d"
    let ?B = "\<lambda>t c. map (bucket_count a ?T t c) [0..<?S]"
    let ?prod = "List.product [0..<?T] [0..<?Rc]"
    obtain flat where
      sc: "scatter_add_ones (replicate (?T * ?Rc * ?S) 0) ?idx = Inr flat"
      and len: "length flat = ?T * ?Rc * ?S"
      and total: "sum_list flat = dim_N d"
      and cell: "\<forall>t<?T. \<forall>c<?Rc. \<forall>s<?S.
          flat ! ((t * ?Rc + c) * ?S + s) = bucket_count a ?T t c s"
      using aggregate_cells [OF vs wf nn bd T] by blast
    let ?rows = "chop (?T * ?Rc) ?S flat"
    let ?row = "\<lambda>r. map (\<lambda>s. flat ! (r * ?S + s)) [0..<?S]"
    have rows1: "?rows = map ?row [0..<?T * ?Rc]"
      using len by (rule chop_table)
    have row: "?row (t * ?Rc + c) = ?B t c" if "t < ?T" "c < ?Rc" for t c
      using cell that by simp
    have rows2: "?rows = map (\<lambda>(t, c). ?B t c) ?prod"
    proof -
      have "?rows = map (\<lambda>(t, c). ?row (t * ?Rc + c)) ?prod"
        unfolding rows1 by (rule map_row_major)
      also have "\<dots> = map (\<lambda>(t, c). ?B t c) ?prod"
        by (rule map_cong [OF refl]) (auto simp: row)
      finally show ?thesis .
    qed
    let ?mask = "map (\<lambda>x. 0 < x) (map f32_sum ?rows)"
    have mask: "chop ?T ?Rc ?mask =
        map (\<lambda>t. map (\<lambda>c. 0 < sum_list (?B t c)) [0..<?Rc]) [0..<?T]"
    proof -
      have "chop ?T ?Rc ?mask = map (\<lambda>t. map (\<lambda>c. ?mask ! (t * ?Rc + c)) [0..<?Rc]) [0..<?T]"
        by (rule chop_table) simp
      also have "\<dots> = map (\<lambda>t. map (\<lambda>c. 0 < sum_list (?B t c)) [0..<?Rc]) [0..<?T]"
      proof (rule map_cong [OF refl], rule map_cong [OF refl])
        fix t c assume "t \<in> set [0..<?T]" "c \<in> set [0..<?Rc]"
        then have t: "t < ?T" and c: "c < ?Rc" by simp_all
        then have r: "t * ?Rc + c < ?T * ?Rc" by (rule row_major_less)
        then have "?mask ! (t * ?Rc + c) = (0 < sum_list (?rows ! (t * ?Rc + c)))"
          by (simp add: f32_sum_pos)
        also have "?rows ! (t * ?Rc + c) = ?row (t * ?Rc + c)"
          unfolding rows1 using r by simp
        also have "\<dots> = ?B t c" using t c by (rule row)
        finally show "?mask ! (t * ?Rc + c) = (0 < sum_list (?B t c))" .
      qed
      finally show ?thesis .
    qed
    let ?m = "\<lparr>num_time_steps = ?T, num_regions = dim_R d, num_coarse_regions = ?Rc,
        num_strains = ?S, num_transit_covariates = dim_P d,
        strain_mask = chop ?T ?Rc ?mask,
        strain_data = filter (\<lambda>row. 0 < sum_list row) ?rows,
        strain_total = map f32_sum (filter (\<lambda>row. 0 < sum_list row) ?rows)\<rparr>"
    have model: "TimeSpaceStrainModel a = Inr ?m"
      by (simp add: TimeSpaceStrainModel_def v sc Let_def masked_rows_fused
          masked_totals_fused)
    have data: "strain_data ?m =
        map (\<lambda>(t, c). ?B t c) (filter (\<lambda>(t, c). 0 < sum_list (?B t c)) ?prod)"
    proof -
      have "(\<lambda>row. 0 < sum_list row) \<circ> (\<lambda>(t, c). ?B t c) = (\<lambda>(t, c). 0 < sum_list (?B t c))"
        by (auto simp: fun_eq_iff)
      then show ?thesis by (simp add: rows2 filter_map)
    qed
    have "sum_list (map sum_list (strain_data ?m)) = sum_list (map sum_list ?rows)"
      by (simp add: sum_positive_rows)
    also have "\<dots> = sum_list (concat ?rows)" by (rule sum_list_rows)
    also have "concat ?rows = flat" using len by (rule concat_chop)
    finally have sum: "sum_list (map sum_list (strain_data ?m)) = dim_N d"
      using total by simp
    show "\<exists>m. TimeSpaceStrainModel a = Inr m
        \<and> strain_mask m = map (\<lambda>t. map (\<lambda>c. 0 < sum_list (?B t c)) [0..<?Rc]) [0..<?T]
        \<and> strain_data m =
            map (\<lambda>(t, c). ?B t c) (filter (\<lambda>(t, c). 0 < sum_list (?B t c)) ?prod)
        \<and> sum_list (map sum_list (strain_data m)) = dim_N d"
      using model mask data sum by (intro exI [of _ ?m]) simp
  }
qed


lemma example_args_valid:
  "validate example_args =
     Inr \<lparr>dim_T = 2, dim_R = 1, dim_P = 1, dim_N = 3, dim_S = 2, dim_Rc = 2\<rparr>"
  by (simp add: validate_def validate_samples_def example_args_def tensor_min_def
      tensor_max_def Let_def)

lemma bucket_count_le: "bucket_count a T t c s \<le> length (samples a)"
  by (simp add: bucket_count_def)

theorem C3_multinomial_counts_witness:
  "\<exists>m. TimeSpaceStrainModel example_args = Inr m
      \<and> strain_mask m = [[False, True], [True, True]]
      \<and> strain_data m = [[1, 0], [1, 0], [0, 1]]
      \<and> sum_list (map sum_list (strain_data m)) = 3"
proof -
  have "bucket_count example_args 2 t c s \<le> 16777216" for t c s
    using bucket_count_le [of example_args 2 t c s]
    by (simp add: samples_def example_args_def)
  then show ?thesis
    using C3_multinomial_counts [OF example_args_valid]
    by (simp add: example_args_def wf_tensor_def bucket_count_def samples_def upt_rec)
qed

lemma crowded_args_valid:
  "validate crowded_args =
     Inr \<lparr>dim_T = 1, dim_R = 1, dim_P = 1, dim_N = 16777217, dim_S = 1, dim_Rc = 1\<rparr>"
  by (simp add: validate_def validate_samples_def crowded_args_def tensor_min_def
      tensor_max_def Let_def)

lemma crowded_args_samples: "samples crowded_args = replicate 16777217 (0, 0, 0)"
  by (simp add: samples_def crowded_args_def zip_replicate)

text \<open>
  Claim C3, as stated, fails in two ways. A region index may be negative, which the
  validation does not exclude: the sample \<open>(time 1, region -1, strain 0)\<close> gets flat index
  \<open>(1 * 2 - 1) * 2 + 0 = 2\<close>, the bucket \<open>(t, c, s) = (0, 1, 0)\<close>, which then holds 2 although
  one sample only has \<open>min(time, T - 1) = 0\<close>, region 1 and strain 0. And a bucket stops
  counting at \<open>2^24\<close>: with \<open>2^24 + 1 = 16777217\<close> samples in the only bucket, the bucket
  and the grand total are \<open>16777216\<close>.
\<close>

theorem C3_aggregation_counterexample:
  "TimeSpaceStrainModel
     (example_args\<lparr>sample_time := \<lparr>shape = [3], elems = [1, 0, 0]\<rparr>,
        sample_region := \<lparr>shape = [3], elems = [- 1, 1, 0]\<rparr>,
        sample_strain := \<lparr>shape = [3], elems = [0, 0, 1]\<rparr>\<rparr>) =
     Inr \<lparr>num_time_steps = 2, num_regions = 1, num_coarse_regions = 2, num_strains = 2,
          num_transit_covariates = 1, strain_mask = [[True, True], [False, False]],
          strain_data = [[0, 1], [2, 0]], strain_total = [1, 2]\<rparr>
   \<and> bucket_count
     (example_args\<lparr>sample_time := \<lparr>shape = [3], elems = [1, 0, 0]\<rparr>,
        sample_region := \<lparr>shape = [3], elems = [- 1, 1, 0]\<rparr>,
        sample_strain := \<lparr>shape = [3], elems = [0, 0, 1]\<rparr>\<rparr>) 2 0 1 0 = 1
   \<and> TimeSpaceStrainModel crowded_args =
     Inr \<lparr>num_time_steps = 1, num_regions = 1, num_coarse_regions = 1, num_strains = 1,
          num_transit_covariates = 1, strain_mask = [[True]],
          strain_data = [[16777216]], strain_total = [16777216]\<rparr>
   \<and> bucket_count crowded_args 1 0 0 0 = 16777217
   \<and> length (elems (sample_time crowded_args)) = 16777217"
proof -
  have neg: "TimeSpaceStrainModel
     (example_args\<lparr>sample_time := \<lparr>shape = [3], elems = [1, 0, 0]\<rparr>,
        sample_region := \<lparr>shape = [3], elems = [- 1, 1, 0]\<rparr>,
        sample_strain := \<lparr>shape = [3], elems = [0, 0, 1]\<rparr>\<rparr>) =
     Inr \<lparr>num_time_steps = 2, num_regions = 1, num_coarse_regions = 2, num_strains = 2,
          num_transit_covariates = 1, strain_mask = [[True, True], [False, False]],
          strain_data = [[0, 1], [2, 0]], strain_total = [1, 2]\<rparr>
   \<and> bucket_count
     (example_args\<lparr>sample_time := \<lparr>shape = [3], elems = [1, 0, 0]\<rparr>,
        sample_region := \<lparr>shape = [3], elems = [- 1, 1, 0]\<rparr>,
        sample_strain := \<lparr>shape = [3], elems = [0, 0, 1]\<rparr>\<rparr>) 2 0 1 0 = 1"
    by (simp add: TimeSpaceStrainModel_def validate_def validate_samples_def example_args_def
        tensor_min_def tensor_max_def Let_def samples_def sample_index_def bucket_count_def
        f32_add_def f32_sum_def f32_round_def numeral_2_eq_2 numeral_3_eq_3)
  have sc: "scatter_add_ones [0] (replicate 16777217 0) = Inr [16777216]"
    using scatter_add_ones_crowded [of 0 16777217] by simp
  have big: "TimeSpaceStrainModel crowded_args =
     Inr \<lparr>num_time_steps = 1, num_regions = 1, num_coarse_regions = 1, num_strains = 1,
          num_transit_covariates = 1, strain_mask = [[True]],
          strain_data = [[16777216]], strain_total = [16777216]\<rparr>"
    by (simp add: TimeSpaceStrainModel_def crowded_args_valid crowded_args_samples
        sample_index_def sc f32_add_def f32_sum_def f32_round_def)
  have cnt: "bucket_count crowded_args 1 0 0 0 = 16777217"
    by (simp add: bucket_count_def crowded_args_samples)
  have len: "length (elems (sample_time crowded_args)) = 16777217"
    by (simp add: crowded_args_def)
  show ?thesis using neg big cnt len by blast
qed

theorem C8_validation_witness:
  "validate example_args =
     Inr \<lparr>dim_T = 2, dim_R = 1, dim_P = 1, dim_N = 3, dim_S = 2, dim_Rc = 2\<rparr>
   \<and> validate (example_args\<lparr>transit_data := \<lparr>shape = [2, 1, 1, 1], elems = [0, 0]\<rparr>\<rparr>) =
     Inl AssertionError
   \<and> TimeSpaceStrainModel
       (example_args\<lparr>transit_data := \<lparr>shape = [2, 1, 1, 1], elems = [0, 0]\<rparr>\<rparr>) =
     Inl AssertionError"
proof -
  have half: "\<exists>r::real. r * 2 = 1 \<and> 0 < r \<and> r < 1"
    by (rule exI [of _ "1 / 2"]) simp
  show ?thesis
    using C8_validation [of example_args 2 1 AssertionError]
      C8_validation
        [of "example_args\<lparr>transit_data := \<lparr>shape = [2, 1, 1, 1], elems = [0, 0]\<rparr>\<rparr>"
          2 1 AssertionError]
    by (simp add: example_args_def wf_tensor_def Let_def half)
qed

text \<open>
  Claim C8, as stated, promises \<open>AssertionError\<close> for every \<open>transit_data\<close> that does not
  have shape \<open>(R, R, P)\<close>. A \<open>transit_data\<close> without dimensions (a scalar tensor) does not
  reach the assertion: \<open>transit_data.size(-1)\<close> raises \<open>IndexError\<close>.
\<close>

theorem C8_scalar_transit_counterexample:
  "validate (example_args\<lparr>transit_data := \<lparr>shape = [], elems = [0]\<rparr>\<rparr>) = Inl IndexError"
  by (simp add: validate_def example_args_def)

subsection \<open>Scheduling in the nextclade database\<close>

lemma flush_tasks: "flush nextclade db = Inr db' \<Longrightarrow> tasks db' = tasks db"
  by (auto simp: flush_def Let_def split: if_splits sum.splits)

lemma flush_covers:
  "flush nextclade db = Inr db' \<Longrightarrow> key \<in> pending db
     \<Longrightarrow> key \<in> already_aligned db' \<and> pending db' = {}"
  by (auto simp: flush_def Let_def split: if_splits sum.splits)

lemma schedule_alignment_tasks:
  "schedule_alignment nextclade key sequence db = Inr db' \<Longrightarrow> tasks db' = tasks db"
  by (auto simp: schedule_alignment_def Let_def dest: flush_tasks split: if_splits)

lemma schedule_alignment_result:
  assumes "schedule_alignment nextclade key sequence db = Inr db'"
  shows "(pending db' = insert key (pending db) \<and> already_aligned db' = already_aligned db
            \<and> fasta_file db' = fasta_file db @ ''>'' @ key @ [CHR 0x0A] @ sequence @ [CHR 0x0A])
       \<or> (key \<in> already_aligned db' \<and> pending db' = {})"
proof -
  let ?db1 = "db\<lparr>fasta_file := fasta_file db @ ''>'' @ key @ [CHR 0x0A] @ sequence @ [CHR 0x0A],
                   pending := insert key (pending db)\<rparr>"
  show ?thesis
  proof (cases "int (card (pending ?db1)) \<ge> max_fasta_count ?db1")
    case True
    then have "flush nextclade ?db1 = Inr db'"
      using assms by (simp add: schedule_alignment_def Let_def)
    then show ?thesis using flush_covers [of nextclade ?db1 db' key] by simp
  next
    case False
    then have "db' = ?db1" using assms by (simp add: schedule_alignment_def Let_def)
    then show ?thesis by simp
  qed
qed




subsection \<open>Round-robin sharding\<close>

lemma from_pos_Cons:
  "from_pos k j i (l # ls) = (if i mod k = j then [l] else []) @ from_pos k j (Suc i) ls"
  by (simp add: from_pos_def upt_rec [of i "Suc (i + length ls)"] del: upt_Suc)

lemma write_lines_round_robin:
  assumes "0 < k" "num_shards a = int k" "log_every a \<noteq> 0" "length (shards st) = k"
  shows "fst (write_lines a i ls st) = None \<and>
         shards (snd (write_lines a i ls st)) =
           map (\<lambda>j. shards st ! j @ from_pos k j i ls) [0..<k]"
  using assms(4)
proof (induction ls arbitrary: i st)
  case Nil
  then show ?case by (auto simp: from_pos_def intro: nth_equalityI)
next
  case (Cons l ls)
  let ?n = "i mod k"
  have m: "py_mod (int i) (num_shards a) = Inr (int ?n)"
    using assms by (simp add: py_mod_def zmod_int)
  have n: "?n < k" using assms by simp
  have ix: "list_index (length (shards st)) (int ?n) = Inr ?n"
    using n Cons.prems by (simp add: list_index_def)
  obtain m' where lg: "py_mod (int i) (log_every a) = Inr m'"
    using assms by (simp add: py_mod_def)
  let ?st1 = "st\<lparr>shards := (shards st)[?n := shards st ! ?n @ [l]]\<rparr>"
  let ?st2 = "if m' = 0 then ?st1\<lparr>dots := Suc (dots ?st1)\<rparr> else ?st1"
  have step: "write_lines a i (l # ls) st = write_lines a (Suc i) ls ?st2"
    by (simp add: m ix lg Let_def)
  have len: "length (shards ?st2) = k" using Cons.prems by simp
  have sh: "shards ?st2 = (shards st)[?n := shards st ! ?n @ [l]]" by simp
  show ?case
    unfolding step using Cons.IH [OF len, of "Suc i"] n Cons.prems
    by (auto simp: sh from_pos_Cons nth_list_update)
qed


lemma from_pos_zero:
  "from_pos k j 0 ls = map ((!) ls) (filter (\<lambda>i. i mod k = j) [0..<length ls])"
proof -
  have z: "zip [0..<length ls] ls = map (\<lambda>i. (i, ls ! i)) [0..<length ls]"
    by (rule nth_equalityI) simp_all
  show ?thesis
    by (simp add: from_pos_def z filter_map o_def)
qed

lemma count_residue:
  assumes "j < k"
  shows "length (filter (\<lambda>i. i mod k = j) [0..<n]) = n div k + (if j < n mod k then 1 else 0)"
proof (induction n)
  case 0
  then show ?case by simp
next
  case (Suc n)
  have k: "0 < k" using assms by simp
  have r: "n mod k < k" using k by simp
  show ?case
  proof (cases "Suc (n mod k) = k")
    case True
    then have "Suc n mod k = 0" "Suc n div k = Suc (n div k)"
      by (simp_all add: mod_Suc div_Suc)
    then show ?thesis using Suc True assms by auto
  next
    case False
    then have "Suc n mod k = Suc (n mod k)" "Suc n div k = n div k"
      by (simp_all add: mod_Suc div_Suc)
    then show ?thesis using Suc False assms by auto
  qed
qed

lemma total_residues:
  assumes "0 < k"
  shows "(\<Sum>j<k. length (filter (\<lambda>i. i mod k = j) [0..<n])) = n"
proof (induction n)
  case 0
  then show ?case by simp
next
  case (Suc n)
  have "(\<Sum>j<k. length (filter (\<lambda>i. i mod k = j) [0..<Suc n])) =
        (\<Sum>j<k. length (filter (\<lambda>i. i mod k = j) [0..<n]) + (if n mod k = j then 1 else 0))"
    by (rule sum.cong) simp_all
  also have "\<dots> = n + (\<Sum>j<k. if n mod k = j then 1 else 0)"
    by (simp add: sum.distrib Suc)
  also have "(\<Sum>j<k. if n mod k = j then 1 else 0) = (1::nat)"
    using assms by (simp add: sum.delta')
  finally show ?case by simp
qed





subsection \<open>The sharded FASTA writer\<close>

lemma replace_star_none:
  "count_list p (CHR ''*'') = 0 \<Longrightarrow> replace_star p s = p"
  by (induction p) (auto simp: replace_star_def split: if_splits)

lemma replace_star_one:
  "count_list p (CHR ''*'') = 1 \<Longrightarrow> \<exists>pre post. \<forall>s. replace_star p s = pre @ s @ post"
proof (induction p)
  case Nil
  then show ?case by simp
next
  case (Cons c p)
  show ?case
  proof (cases "c = CHR ''*''")
    case True
    then have "count_list p (CHR ''*'') = 0" using Cons.prems by simp
    then have "\<forall>s. replace_star (c # p) s = [] @ s @ p"
      using True replace_star_none [of p] by (simp add: replace_star_def)
    then show ?thesis by blast
  next
    case False
    then obtain pre post where "\<forall>s. replace_star p s = pre @ s @ post"
      using Cons by auto
    then have "\<forall>s. replace_star (c # p) s = (c # pre) @ s @ post"
      using False by (simp add: replace_star_def)
    then show ?thesis by blast
  qed
qed

lemma shard_name_inj:
  assumes "count_list (filepattern w) (CHR ''*'') = 1" and "shard_name w i = shard_name w j"
  shows "i = j"
proof -
  obtain pre post where "\<forall>s. replace_star (filepattern w) s = pre @ s @ post"
    using replace_star_one [OF assms(1)] by blast
  then have "str_nat i = str_nat j" using assms(2) by (simp add: shard_name_def)
  then show ?thesis by (rule str_nat_inj)
qed


lemma write_fasta_step:
  assumes "open_file w = Some f"
  shows "write_fasta name sequence (w, fs) =
     Inr (if int (line_count w) = max_count w
          then (w\<lparr>open_file := Some (shard_name w (file_count w)),
                  file_count := file_count w + 1, line_count := 1\<rparr>,
                fs(shard_name w (file_count w) \<mapsto> [fasta_record name sequence]))
          else (w\<lparr>line_count := line_count w + 1\<rparr>,
                fs(f \<mapsto> records_of fs f @ [fasta_record name sequence])))"
  using assms
  by (simp add: write_fasta_def open_next_def file_append_def shard_name_def records_of_def
      Let_def)

lemma shard_name_update [simp]:
  "shard_name (w\<lparr>open_file := x\<rparr>) = shard_name w"
  "shard_name (w\<lparr>file_count := y\<rparr>) = shard_name w"
  "shard_name (w\<lparr>line_count := z\<rparr>) = shard_name w"
  by (simp_all add: shard_name_def fun_eq_iff)

lemma writer_inv_enter:
  assumes "ShardedFastaWriter pattern mc = Inr w0" and "0 < mc"
  shows "\<exists>s. enter (w0, fs0) = Inr s \<and> writer_inv pattern mc s"
proof -
  have w0: "w0 = \<lparr>filepattern = pattern, max_count = mc, file_count = 0, line_count = 0,
                  open_file = None\<rparr>"
    using assms(1) by (simp add: ShardedFastaWriter_def split: if_splits)
  show ?thesis
    using assms(2)
    by (simp add: w0 enter_def open_next_def writer_inv_def shard_name_def records_of_def
        Let_def)
qed

lemma writer_inv_write:
  assumes inv: "writer_inv pattern mc (w, fs)" and pos: "0 < mc"
  shows "\<exists>s. write_fasta name sequence (w, fs) = Inr s \<and> writer_inv pattern mc s"
proof -
  let ?cur = "shard_name w (file_count w - 1)"
  have op: "open_file w = Some ?cur" using inv by (simp add: writer_inv_def)
  have fc: "0 < file_count w" and lc: "int (line_count w) \<le> mc"
    and mc: "max_count w = mc" and fp: "filepattern w = pattern"
    and len: "length (records_of fs ?cur) = line_count w"
    and all: "\<forall>i<file_count w. int (length (records_of fs (shard_name w i))) \<le> mc"
    using inv by (simp_all add: writer_inv_def)
  show ?thesis
  proof (cases "int (line_count w) = max_count w")
    case True
    let ?f = "shard_name w (file_count w)"
    let ?w = "w\<lparr>open_file := Some ?f, file_count := file_count w + 1, line_count := 1\<rparr>"
    let ?fs = "fs(?f \<mapsto> [fasta_record name sequence])"
    have st: "write_fasta name sequence (w, fs) = Inr (?w, ?fs)"
      using write_fasta_step [OF op] True by simp
    have "\<forall>i<file_count w + 1. int (length (records_of ?fs (shard_name w i))) \<le> mc"
    proof (intro allI impI)
      fix i assume i: "i < file_count w + 1"
      show "int (length (records_of ?fs (shard_name w i))) \<le> mc"
      proof (cases "shard_name w i = ?f")
        case True
        then show ?thesis using pos by (simp add: records_of_def)
      next
        case False
        then have "i \<noteq> file_count w" by auto
        then have "i < file_count w" using i by simp
        then show ?thesis using all False by (simp add: records_of_def)
      qed
    qed
    then have "writer_inv pattern mc (?w, ?fs)"
      using pos fp mc by (simp add: writer_inv_def records_of_def)
    then show ?thesis using st by blast
  next
    case False
    let ?w = "w\<lparr>line_count := line_count w + 1\<rparr>"
    let ?fs = "fs(?cur \<mapsto> records_of fs ?cur @ [fasta_record name sequence])"
    have st: "write_fasta name sequence (w, fs) = Inr (?w, ?fs)"
      using write_fasta_step [OF op] False by simp
    have lt: "int (line_count w) + 1 \<le> mc" using lc False mc by simp
    have "\<forall>i<file_count w. int (length (records_of ?fs (shard_name w i))) \<le> mc"
    proof (intro allI impI)
      fix i assume i: "i < file_count w"
      show "int (length (records_of ?fs (shard_name w i))) \<le> mc"
      proof (cases "shard_name w i = ?cur")
        case True
        then show ?thesis using lt len by (simp add: records_of_def)
      next
        case False
        then show ?thesis using all i by (simp add: records_of_def)
      qed
    qed
    then have "writer_inv pattern mc (?w, ?fs)"
      using fc op fp mc lt len by (simp add: writer_inv_def records_of_def)
    then show ?thesis using st by blast
  qed
qed

lemma writer_inv_write_all:
  assumes "writer_inv pattern mc s" and "0 < mc"
  shows "\<exists>s'. write_all rs s = Inr s' \<and> writer_inv pattern mc s'"
  using assms(1)
proof (induction rs arbitrary: s)
  case Nil
  then show ?case by simp
next
  case (Cons r rs)
  obtain name sequence where r: "r = (name, sequence)" by (cases r)
  obtain w fs where s: "s = (w, fs)" by (cases s)
  obtain s1 where s1: "write_fasta name sequence (w, fs) = Inr s1" "writer_inv pattern mc s1"
    using writer_inv_write [OF _ assms(2)] Cons.prems s by blast
  show ?case using Cons.IH [OF s1(2)] s1(1) by (simp add: r s)
qed


text \<open>
  Claim C6, as stated, fails for \<open>max_count = 0\<close>: the first write rolls over to file 1,
  and from then on the record count is never 0 again, so file 1 receives every record.
\<close>

theorem C6_zero_max_count_counterexample:
  "(case run_writer ''out.*.fasta'' 0 Map.empty [(''a'', ''AC''), (''b'', ''GT'')] of
      Inl e \<Rightarrow> None
    | Inr (w, fs) \<Rightarrow> Some (max_count w, file_count w, line_count w, fs ''out.1.fasta'')) =
   Some (0, 2, 2, Some [''>a'' @ [CHR 0x0A] @ ''AC'' @ [CHR 0x0A],
                        ''>b'' @ [CHR 0x0A] @ ''GT'' @ [CHR 0x0A]])"
  by (simp add: run_writer_def ShardedFastaWriter_def enter_def open_next_def write_fasta_def
      file_append_def records_of_def replace_star_def str_nat.simps digit_char_def
      fasta_record_def Let_def)

text \<open>
  Claim C6, amended. For \<open>max_count \<ge> 1\<close> and a pattern with exactly one \<open>*\<close>, a writer that
  is entered and then given any sequence of writes raises nothing, and every file it has
  opened (the pattern with \<open>*\<close> replaced by \<open>0, 1, \<dots>\<close>, names that are pairwise distinct)
  holds at most \<open>max_count\<close> records. Every write on an open writer appends exactly one
  record (\<open>>\<close>, the name, a newline, the sequence, a newline) to the current file; when
  the current file already holds \<open>max_count\<close> records it first opens, empty, the file
  numbered by the file count, increments the file count and restarts the record count.
\<close>

theorem C6_writer_bound:
  assumes "0 < mc"
  shows "(count_list pattern (CHR ''*'') = 1 \<longrightarrow>
            (\<exists>w fs. run_writer pattern mc fs0 rs = Inr (w, fs)
               \<and> 0 < file_count w
               \<and> (\<forall>i<file_count w.
                     int (length (records_of fs (replace_star pattern (str_nat i)))) \<le> mc)
               \<and> (\<forall>i j. replace_star pattern (str_nat i) = replace_star pattern (str_nat j)
                     \<longrightarrow> i = j)))
       \<and> (open_file w = Some f \<longrightarrow>
            write_fasta name sequence (w, fs) =
              Inr (if int (line_count w) = max_count w
                   then (w\<lparr>open_file := Some (replace_star (filepattern w) (str_nat (file_count w))),
                           file_count := file_count w + 1, line_count := 1\<rparr>,
                         fs(replace_star (filepattern w) (str_nat (file_count w))
                              \<mapsto> [fasta_record name sequence]))
                   else (w\<lparr>line_count := line_count w + 1\<rparr>,
                         fs(f \<mapsto> records_of fs f @ [fasta_record name sequence]))))"
proof (intro conjI impI)
  assume star: "count_list pattern (CHR ''*'') = 1"
  let ?w0 = "\<lparr>filepattern = pattern, max_count = mc, file_count = 0, line_count = 0,
              open_file = None\<rparr>"
  have init: "ShardedFastaWriter pattern mc = Inr ?w0"
    using star by (simp add: ShardedFastaWriter_def)
  obtain s0 where s0: "enter (?w0, fs0) = Inr s0" "writer_inv pattern mc s0"
    using writer_inv_enter [OF init assms] by blast
  obtain s1 where s1: "write_all rs s0 = Inr s1" "writer_inv pattern mc s1"
    using writer_inv_write_all [OF s0(2) assms] by blast
  obtain w1 fs1 where p: "s1 = (w1, fs1)" by (cases s1)
  have run: "run_writer pattern mc fs0 rs = Inr (w1, fs1)"
    by (simp add: run_writer_def init s0(1) s1(1) p)
  have fp: "filepattern w1 = pattern" and fc: "0 < file_count w1"
    and bound: "\<forall>i<file_count w1. int (length (records_of fs1 (shard_name w1 i))) \<le> mc"
    using s1(2) by (simp_all add: writer_inv_def p)
  have names: "\<forall>i j. replace_star pattern (str_nat i) = replace_star pattern (str_nat j)
      \<longrightarrow> i = j"
    using shard_name_inj [of ?w0] star by (simp add: shard_name_def)
  show "\<exists>w fs. run_writer pattern mc fs0 rs = Inr (w, fs)
      \<and> 0 < file_count w
      \<and> (\<forall>i<file_count w.
            int (length (records_of fs (replace_star pattern (str_nat i)))) \<le> mc)
      \<and> (\<forall>i j. replace_star pattern (str_nat i) = replace_star pattern (str_nat j)
            \<longrightarrow> i = j)"
    using run fc bound names fp by (auto simp: shard_name_def)
next
  assume "open_file w = Some f"
  then show "write_fasta name sequence (w, fs) =
      Inr (if int (line_count w) = max_count w
           then (w\<lparr>open_file := Some (replace_star (filepattern w) (str_nat (file_count w))),
                   file_count := file_count w + 1, line_count := 1\<rparr>,
                 fs(replace_star (filepattern w) (str_nat (file_count w))
                      \<mapsto> [fasta_record name sequence]))
           else (w\<lparr>line_count := line_count w + 1\<rparr>,
                 fs(f \<mapsto> records_of fs f @ [fasta_record name sequence])))"
    using write_fasta_step [of w f name sequence fs] by (simp add: shard_name_def)
qed

theorem C6_writer_bound_witness:
  "(0::int) < 2 \<and> count_list ''out.*.fasta'' (CHR ''*'') = 1
   \<and> (\<exists>w fs. run_writer ''out.*.fasta'' 2 Map.empty
                 [(''a'', ''AC''), (''b'', ''GT''), (''c'', ''TT'')] = Inr (w, fs)
         \<and> 0 < file_count w
         \<and> (\<forall>i<file_count w.
               int (length (records_of fs (replace_star ''out.*.fasta'' (str_nat i)))) \<le> 2))
   \<and> write_fasta ''a'' ''AC''
        (\<lparr>filepattern = ''out.*.fasta'', max_count = 2, file_count = 1, line_count = 0,
          open_file = Some ''out.0.fasta''\<rparr>, [''out.0.fasta'' \<mapsto> []]) =
      Inr (\<lparr>filepattern = ''out.*.fasta'', max_count = 2, file_count = 1, line_count = 1,
            open_file = Some ''out.0.fasta''\<rparr>,
           [''out.0.fasta'' \<mapsto> [''>a'' @ [CHR 0x0A] @ ''AC'' @ [CHR 0x0A]]])"
  using C6_writer_bound [where mc = 2 and pattern = "''out.*.fasta''" and ?fs0.0 = Map.empty
      and rs = "[(''a'', ''AC''), (''b'', ''GT''), (''c'', ''TT'')]"
      and w = "\<lparr>filepattern = ''out.*.fasta'', max_count = 2, file_count = 1, line_count = 0,
          open_file = Some ''out.0.fasta''\<rparr>"
      and f = "''out.0.fasta''" and name = "''a''" and sequence = "''AC''"
      and fs = "[''out.0.fasta'' \<mapsto> []]"]
  by (simp add: fasta_record_def records_of_def [of "[''out.0.fasta'' \<mapsto> []]"]) blast

subsection \<open>Dispatch in \<open>main\<close>\<close>

lemma map_of_dict_set: "map_of (dict_set d k v) = (map_of d)(k \<mapsto> v)"
  by (induction d) (auto simp: fun_eq_iff)

lemma keys_dict_set: "set (map fst (dict_set d k v)) = insert k (set (map fst d))"
proof (induction d)
  case Nil
  show ?case by simp
next
  case (Cons p d)
  obtain k' v' where p: "p = (k', v')" by (cases p)
  show ?case
  proof (cases "k' = k")
    case True
    then show ?thesis by (simp add: p)
  next
    case False
    then have "set (map fst (dict_set (p # d) k v)) = insert k' (set (map fst (dict_set d k v)))"
      by (simp add: p)
    also have "\<dots> = insert k' (insert k (set (map fst d)))" by (simp only: Cons.IH)
    also have "\<dots> = insert k (set (map fst (p # d)))" by (simp add: p insert_commute)
    finally show ?thesis .
  qed
qed

lemma distinct_dict_set: "distinct (map fst d) \<Longrightarrow> distinct (map fst (dict_set d k v))"
proof (induction d)
  case Nil
  show ?case by simp
next
  case (Cons p d)
  obtain k' v' where p: "p = (k', v')" by (cases p)
  have d: "distinct (map fst d)" and n: "k' \<notin> set (map fst d)"
    using Cons.prems by (simp_all add: p)
  show ?case
  proof (cases "k' = k")
    case True
    then show ?thesis using d n by (simp add: p)
  next
    case False
    have "k' \<notin> set (map fst (dict_set d k v))"
      using n False by (simp only: keys_dict_set) simp
    then show ?thesis using Cons.IH [OF d] False by (simp add: p)
  qed
qed

lemma map_of_fold_dict_set:
  "map_of (fold (\<lambda>c r. dict_set r c (f c)) cs d) =
     (\<lambda>c. if c \<in> set cs then Some (f c) else map_of d c)"
proof (induction cs arbitrary: d)
  case Nil
  show ?case by simp
next
  case (Cons c cs)
  show ?case by (auto simp: Cons.IH map_of_dict_set fun_eq_iff)
qed

lemma keys_fold_dict_set:
  "set (map fst (fold (\<lambda>c r. dict_set r c (f c)) cs d)) = set cs \<union> set (map fst d)"
proof (induction cs arbitrary: d)
  case Nil
  show ?case by simp
next
  case (Cons c cs)
  have "set (map fst (fold (\<lambda>c r. dict_set r c (f c)) (c # cs) d)) =
      set cs \<union> set (map fst (dict_set d c (f c)))"
    by (simp only: fold_simps Cons.IH)
  also have "\<dots> = set (c # cs) \<union> set (map fst d)"
    by (simp only: keys_dict_set) auto
  finally show ?case .
qed

lemma distinct_fold_dict_set:
  "distinct (map fst d) \<Longrightarrow> distinct (map fst (fold (\<lambda>c r. dict_set r c (f c)) cs d))"
proof (induction cs arbitrary: d)
  case Nil
  then show ?case by simp
next
  case (Cons c cs)
  have "distinct (map fst (dict_set d c (f c)))" using Cons.prems by (rule distinct_dict_set)
  then have "distinct (map fst (fold (\<lambda>c r. dict_set r c (f c)) cs (dict_set d c (f c))))"
    by (rule Cons.IH)
  then show ?case by (simp only: fold_simps)
qed

lemma fit_all_total:
  "fit_all (total_env ld fm fs) args cs result trace =
     (trace @ concat (map (\<lambda>c.
          [LogConfig c, LoadData args (snd c),
           if hd (fst c) = PStr ''mcmc''
           then FitMcmc args (ld args (snd c)) (tl (fst c) @ [PHoldout (snd c)])
           else FitSvi args (ld args (snd c)) (fst c @ [PHoldout (snd c)])]) cs),
      Inr (fold (\<lambda>c r. dict_set r c
             (if hd (fst c) = PStr ''mcmc''
              then fm args (ld args (snd c)) (tl (fst c) @ [PHoldout (snd c)])
              else fs args (ld args (snd c)) (fst c @ [PHoldout (snd c)]),
              ld args (snd c))) cs result))"
  by (induction cs arbitrary: result trace) (simp_all add: total_env_def Let_def)




subsection \<open>Moment matching of the observation distributions\<close>

lemma OverdispersedPoisson_zero_number:
  "OverdispersedPoisson rate (PyNumber 0) = Some (Poisson rate)"
  by (simp add: OverdispersedPoisson_def)

lemma OverdispersedPoisson_positive:
  assumes "0 < rate" and "0 < value_of od"
  shows "OverdispersedPoisson rate od =
           Some (NegativeBinomial (1 / value_of od)
                   (value_of od * rate / (1 + value_of od * rate)))"
proof -
  let ?x = "value_of od"
  let ?q = "1 / (1 + ?x * rate)"
  have pos: "0 < 1 + ?x * rate" using assms by (simp add: add_pos_pos)
  have ne: "1 + ?x * rate \<noteq> 0" "?x \<noteq> 0" "rate \<noteq> 0" using assms pos by simp_all
  have q: "reciprocal (1 + ?x * rate) = Some ?q"
    using ne by (simp add: reciprocal_def)
  have p: "1 - ?q = ?x * rate / (1 + ?x * rate)"
    using ne by (simp add: divide_simps)
  have pne: "1 - ?q \<noteq> 0" using ne by (simp add: p)
  have r: "rate * ?q / (1 - ?q) = 1 / ?x"
    unfolding p using ne by (simp add: divide_simps)
  have d: "divide_by (rate * ?q) (1 - ?q) = Some (1 / ?x)"
    unfolding divide_by_def using pne r by (simp only: if_False)
  have "OverdispersedPoisson rate od =
      (case reciprocal (1 + ?x * rate) of
         None \<Rightarrow> None
       | Some q \<Rightarrow>
           (let p = 1 - q in
            case divide_by (rate * q) p of
              None \<Rightarrow> None
            | Some r \<Rightarrow> Some (NegativeBinomial r p)))"
    using ne by (simp only: OverdispersedPoisson_def simp_thms if_False)
  also have "\<dots> = (case divide_by (rate * ?q) (1 - ?q) of
              None \<Rightarrow> None
            | Some r \<Rightarrow> Some (NegativeBinomial r (1 - ?q)))"
    by (simp only: q option.case Let_def)
  also have "\<dots> = Some (NegativeBinomial (1 / ?x) (1 - ?q))"
    by (simp only: d option.case)
  finally show ?thesis by (simp only: p)
qed

lemma NegativeBinomial_moments:
  assumes "0 < rate" and "0 < x"
  shows "mean (NegativeBinomial (1 / x) (x * rate / (1 + x * rate))) = rate"
    and "variance (NegativeBinomial (1 / x) (x * rate / (1 + x * rate))) = rate * (1 + x * rate)"
proof -
  have pos: "0 < 1 + x * rate" using assms by (simp add: add_pos_pos)
  have q: "1 - x * rate / (1 + x * rate) = 1 / (1 + x * rate)"
    using pos by (simp add: field_simps)
  show "mean (NegativeBinomial (1 / x) (x * rate / (1 + x * rate))) = rate"
    using assms pos by (simp add: q)
  show "variance (NegativeBinomial (1 / x) (x * rate / (1 + x * rate))) = rate * (1 + x * rate)"
    using assms pos by (simp add: q power2_eq_square field_simps)
qed

lemma RelaxedPoisson_value:
  assumes "0 < rate" and "0 \<le> value_of od"
  shows "RelaxedPoisson rate od =
           Some (LogNormal (ln rate - ln (1 + (1 / rate + value_of od)) / 2)
                           (sqrt (ln (1 + (1 / rate + value_of od)))))"
proof -
  let ?y = "1 / rate + value_of od"
  have y: "0 < ?y" using assms by (simp add: add_pos_nonneg)
  then have "0 \<le> ln (1 + ?y)" by simp
  then show ?thesis
    using assms y
    by (simp add: RelaxedPoisson_def reciprocal_def log1p_def log_of_def sqrt_of_def Let_def)
qed

lemma LogNormal_moments:
  assumes "0 < rate" and "0 \<le> x"
    and "m = ln rate - ln (1 + (1 / rate + x)) / 2"
    and "s = sqrt (ln (1 + (1 / rate + x)))"
  shows "exp (m + s\<^sup>2 / 2) = rate"
    and "(exp (s\<^sup>2) - 1) * exp (2 * m + s\<^sup>2) = rate * (1 + x * rate)"
proof -
  let ?y = "1 / rate + x"
  have y: "0 < ?y" using assms by (simp add: add_pos_nonneg)
  then have l: "0 \<le> ln (1 + ?y)" by simp
  have s2: "s\<^sup>2 = ln (1 + ?y)" using assms(4) l by simp
  show "exp (m + s\<^sup>2 / 2) = rate"
    using assms(1) by (simp add: s2 assms(3))
  have e: "exp (s\<^sup>2) - 1 = ?y" using y by (simp add: s2)
  have "2 * m + s\<^sup>2 = 2 * ln rate" by (simp add: s2 assms(3))
  then have "exp (2 * m + s\<^sup>2) = rate * rate"
    using assms(1) by (simp add: exp_double power2_eq_square)
  then show "(exp (s\<^sup>2) - 1) * exp (2 * m + s\<^sup>2) = rate * (1 + x * rate)"
    using assms(1) by (simp add: e field_simps)
qed

text \<open>
  Claim C9, as stated, covers an overdispersion that is a tensor holding zero: it is not
  the Python number 0, so the negative-binomial branch runs with \<open>p = 0\<close> and the
  quotient \<open>rate * q / p\<close> has no value in exact arithmetic.
\<close>

theorem C9_tensor_zero_counterexample:
  "OverdispersedPoisson 1 (TensorValue 0) = None"
  by (simp add: OverdispersedPoisson_def reciprocal_def divide_by_def)

text \<open>
  Claim C9, amended. In exact real (rational-function) arithmetic, for every rate
  \<open>r > 0\<close>: \<open>OverdispersedPoisson\<close> returns \<open>Poisson(r)\<close> when the overdispersion is the Python number 0, and for every overdispersion \<open>o > 0\<close>
  (number or tensor) a negative binomial with mean \<open>r\<close> and variance \<open>r * (1 + o * r)\<close>;
  for every \<open>o \<ge> 0\<close> the \<open>LogNormal(m, s)\<close> returned by \<open>RelaxedPoisson\<close> satisfies
  \<open>exp (m + s\<^sup>2 / 2) = r\<close> and \<open>(exp (s\<^sup>2) - 1) * exp (2 * m + s\<^sup>2) = r * (1 + o * r)\<close>.
\<close>

theorem C9_moment_matching:
  assumes rate: "0 < rate"
  shows "OverdispersedPoisson rate (PyNumber 0) = Some (Poisson rate)
       \<and> (0 < value_of od \<longrightarrow>
            (\<exists>r p. OverdispersedPoisson rate od = Some (NegativeBinomial r p)
               \<and> mean (NegativeBinomial r p) = rate
               \<and> variance (NegativeBinomial r p) = rate * (1 + value_of od * rate)))
       \<and> (0 \<le> value_of od \<longrightarrow>
            (\<exists>m s. RelaxedPoisson rate od = Some (LogNormal m s)
               \<and> exp (m + s\<^sup>2 / 2) = rate
               \<and> (exp (s\<^sup>2) - 1) * exp (2 * m + s\<^sup>2) = rate * (1 + value_of od * rate)))"
proof (intro conjI impI)
  show "OverdispersedPoisson rate (PyNumber 0) = Some (Poisson rate)"
    by (rule OverdispersedPoisson_zero_number)
next
  assume od: "0 < value_of od"
  show "\<exists>r p. OverdispersedPoisson rate od = Some (NegativeBinomial r p)
          \<and> mean (NegativeBinomial r p) = rate
          \<and> variance (NegativeBinomial r p) = rate * (1 + value_of od * rate)"
    using OverdispersedPoisson_positive [OF rate od] NegativeBinomial_moments [OF rate od]
    by blast
next
  assume od: "0 \<le> value_of od"
  show "\<exists>m s. RelaxedPoisson rate od = Some (LogNormal m s)
          \<and> exp (m + s\<^sup>2 / 2) = rate
          \<and> (exp (s\<^sup>2) - 1) * exp (2 * m + s\<^sup>2) = rate * (1 + value_of od * rate)"
    using RelaxedPoisson_value [OF rate od] LogNormal_moments [OF rate od refl refl]
    by blast
qed

theorem C9_moment_matching_witness:
  "OverdispersedPoisson 2 (PyNumber 0) = Some (Poisson 2)
   \<and> (\<exists>r p. OverdispersedPoisson 2 (TensorValue 3) = Some (NegativeBinomial r p)
         \<and> mean (NegativeBinomial r p) = 2
         \<and> variance (NegativeBinomial r p) = 14)
   \<and> (\<exists>m s. RelaxedPoisson 2 (TensorValue 3) = Some (LogNormal m s)
         \<and> exp (m + s\<^sup>2 / 2) = 2
         \<and> (exp (s\<^sup>2) - 1) * exp (2 * m + s\<^sup>2) = 14)"
  using C9_moment_matching [of 2 "TensorValue 3"] by simp

end
